theory Spec2Isabelle
  imports Main "HOL-Library.Word"
begin

section \<open>Strings and the regular expressions of plugin.go\<close>

text \<open>
  A Go string is a sequence of bytes, here a \<open>string\<close> (a list of 8-bit \<open>char\<close>s).
  The four patterns of plugin.go (lines 17 to 22) test ASCII bytes only
  (\<open>/\<close>, \<open>*\<close>, \<open>-\<close>, \<open>#\<close>, newline, the classes \<open>\s\<close> and \<open>\w\<close>), and an ASCII byte
  never occurs inside a multi-byte UTF-8 sequence, so matching byte by byte and matching
  rune by rune select the same matches for them.
\<close>

definition newline :: char where
  "newline = CHR 0x0A"

definition is_space :: "char \<Rightarrow> bool" where
  \<comment> \<open>the class \<open>\s\<close> of Go's regexp syntax: tab, newline, form feed, carriage return, space\<close>
  "is_space c = (c = CHR 0x09 \<or> c = CHR 0x0A \<or> c = CHR 0x0C \<or> c = CHR 0x0D \<or> c = CHR 0x20)"

definition is_word :: "char \<Rightarrow> bool" where
  \<comment> \<open>the class \<open>\w\<close> of Go's regexp syntax: \<open>[0-9A-Za-z_]\<close>\<close>
  "is_word c =
     (let n = (of_char c :: nat)
      in (48 \<le> n \<and> n \<le> 57) \<or> (65 \<le> n \<and> n \<le> 90) \<or> (97 \<le> n \<and> n \<le> 122) \<or> n = 95)"

text \<open>
  The fragment of the regexp syntax that the four patterns use. An atom matches exactly
  one character; every repetition of the patterns is over an atom.
\<close>

datatype atom =
    Lit char          \<comment> \<open>a literal character\<close>
  | Dot bool          \<comment> \<open>\<open>.\<close>; the flag is \<open>s\<close>: with it \<open>.\<close> matches newline too\<close>
  | PerlSpace         \<comment> \<open>\<open>\s\<close>\<close>
  | PerlWord          \<comment> \<open>\<open>\w\<close>\<close>
  | OneOf "atom list" \<comment> \<open>a bracket expression \<open>[...]\<close>\<close>

fun atom_ok :: "atom \<Rightarrow> char \<Rightarrow> bool" where
  "atom_ok (Lit a) c = (c = a)"
| "atom_ok (Dot s) c = (s \<or> c \<noteq> newline)"
| "atom_ok PerlSpace c = is_space c"
| "atom_ok PerlWord c = is_word c"
| "atom_ok (OneOf as) c = list_ex (\<lambda>a. atom_ok a c) as"

datatype rx =
    Atom atom
  | BeginText         \<comment> \<open>\<open>^\<close> without the flag \<open>m\<close>: the start of the text\<close>
  | EndLine           \<comment> \<open>\<open>$\<close> with the flag \<open>m\<close>: the end of the text, or before a newline\<close>
  | Seq rx rx
  | Alt rx rx
  | Star atom         \<comment> \<open>\<open>a*\<close>, greedy\<close>
  | StarLazy atom     \<comment> \<open>\<open>a*?\<close>, non-greedy\<close>
  | Plus atom         \<comment> \<open>\<open>a+\<close>, greedy\<close>

text \<open>
  Matching is on the rest of the text. The matcher returns the rests after every way of
  matching a prefix, in the order in which a backtracking search finds them; Go's regexp
  (leftmost-first) picks the first one at the leftmost start.
\<close>

fun star_greedy :: "atom \<Rightarrow> string \<Rightarrow> string list" where
  "star_greedy a [] = [[]]"
| "star_greedy a (c # cs) = (if atom_ok a c then star_greedy a cs else []) @ [c # cs]"

fun star_lazy :: "atom \<Rightarrow> string \<Rightarrow> string list" where
  "star_lazy a [] = [[]]"
| "star_lazy a (c # cs) = (c # cs) # (if atom_ok a c then star_lazy a cs else [])"

fun rmatch :: "nat \<Rightarrow> rx \<Rightarrow> string \<Rightarrow> string list" where
  \<comment> \<open>\<open>n\<close> is the length of the whole text: the rest \<open>s\<close> starts at offset \<open>n - length s\<close>\<close>
  "rmatch n (Atom a) s = (case s of [] \<Rightarrow> [] | c # cs \<Rightarrow> if atom_ok a c then [cs] else [])"
| "rmatch n BeginText s = (if length s = n then [s] else [])"
| "rmatch n EndLine s = (case s of [] \<Rightarrow> [s] | c # cs \<Rightarrow> if c = newline then [s] else [])"
| "rmatch n (Seq r1 r2) s = concat (map (rmatch n r2) (rmatch n r1 s))"
| "rmatch n (Alt r1 r2) s = rmatch n r1 s @ rmatch n r2 s"
| "rmatch n (Star a) s = star_greedy a s"
| "rmatch n (StarLazy a) s = star_lazy a s"
| "rmatch n (Plus a) s = (case s of [] \<Rightarrow> [] | c # cs \<Rightarrow> if atom_ok a c then star_greedy a cs else [])"

fun search :: "nat \<Rightarrow> rx \<Rightarrow> string \<Rightarrow> (nat \<times> nat) option" where
  \<comment> \<open>the leftmost match in the rest \<open>s\<close>, as the offsets of its start and its end\<close>
  "search n re s =
     (case rmatch n re s of
        r # _ \<Rightarrow> Some (n - length s, n - length r)
      | [] \<Rightarrow> (case s of [] \<Rightarrow> None | c # cs \<Rightarrow> search n re cs))"

definition doExecute :: "rx \<Rightarrow> string \<Rightarrow> nat \<Rightarrow> (nat \<times> nat) option" where
  \<comment> \<open>regexp's \<open>doExecute\<close>: the leftmost match that starts at \<open>pos\<close> or later\<close>
  "doExecute re src pos = search (length src) re (drop pos src)"

text \<open>The patterns, lines 18 to 21.\<close>

definition firstWordRegex :: rx where
  \<comment> \<open>\<open>^\w+\<close>\<close>
  "firstWordRegex = Seq BeginText (Plus PerlWord)"

definition cCommentRegex :: rx where
  \<comment> \<open>\<open>(?is)/\*.*?\*/\<close>\<close>
  "cCommentRegex =
     Seq (Atom (Lit (CHR ''/''))) (Seq (Atom (Lit (CHR ''*'')))
       (Seq (StarLazy (Dot True)) (Seq (Atom (Lit (CHR ''*''))) (Atom (Lit (CHR ''/''))))))"

definition lineCommentRegex :: rx where
  \<comment> \<open>\<open>(?im)(?:--|#).*?$\<close>\<close>
  "lineCommentRegex =
     Seq (Alt (Seq (Atom (Lit (CHR ''-''))) (Atom (Lit (CHR ''-'')))) (Atom (Lit (CHR ''#''))))
       (Seq (StarLazy (Dot False)) EndLine)"

definition sqlPrefixRegex :: rx where
  \<comment> \<open>\<open>^[\s;]*\<close>\<close>
  "sqlPrefixRegex = Seq BeginText (Star (OneOf [PerlSpace, Lit (CHR '';'')]))"

declare search.simps [simp del]

subsection \<open>ReplaceAllString, FindString and ToLower\<close>

text \<open>
  A match never extends the rest it started from, so the offsets that \<open>search\<close> returns
  lie between the search position and the end of the text. The loop of \<open>replaceAll\<close>
  terminates by that.
\<close>

lemma star_greedy_len: "r \<in> set (star_greedy a s) \<Longrightarrow> length r \<le> length s"
  by (induction s) (auto split: if_splits)

lemma star_lazy_len: "r \<in> set (star_lazy a s) \<Longrightarrow> length r \<le> length s"
  by (induction s) (auto split: if_splits)

lemma rmatch_len: "r \<in> set (rmatch n re s) \<Longrightarrow> length r \<le> length s"
proof (induction re arbitrary: r s)
  case (Seq r1 r2)
  then show ?case by simp (meson order_trans)
next
  case (Plus a)
  then show ?case by (auto split: list.splits if_splits dest: star_greedy_len)
qed (auto split: list.splits if_splits dest: star_greedy_len star_lazy_len)

lemma search_bounds:
  "search n re s = Some (a0, a1) \<Longrightarrow> length s \<le> n \<Longrightarrow> n - length s \<le> a0 \<and> a0 \<le> a1 \<and> a1 \<le> n"
proof (induction s)
  case Nil
  show ?case
  proof (cases "rmatch n re []")
    case Nil
    with Nil.prems show ?thesis by (simp add: search.simps)
  next
    case (Cons r rs)
    then have "r \<in> set (rmatch n re [])" by simp
    then have "length r \<le> length ([] :: string)" by (rule rmatch_len)
    with Cons Nil.prems show ?thesis by (auto simp: search.simps)
  qed
next
  case (Cons c cs)
  show ?case
  proof (cases "rmatch n re (c # cs)")
    case Nil
    with Cons show ?thesis by (auto simp: search.simps[of n re "c # cs"])
  next
    case (Cons r rs)
    then have "r \<in> set (rmatch n re (c # cs))" by simp
    then have "length r \<le> length (c # cs)" by (rule rmatch_len)
    with Cons Cons.prems show ?thesis by (auto simp: search.simps[of n re "c # cs"])
  qed
qed

text \<open>
  The loop of regexp's \<open>replaceAll\<close>, which \<open>ReplaceAllString\<close> runs: find the next
  match from \<open>searchPos\<close>, copy the text before it, insert the replacement (but not for
  an empty match right after another match), and advance, by one character at least.
  \<open>width\<close> is the width of the character at \<open>searchPos\<close>, zero at the end of the text;
  it matters only after an empty match, which among the four patterns only the anchored
  \<open>sqlPrefixRegex\<close> can produce, and that one never matches again further right.
  The replacement is taken literally: plugin.go only passes the empty string.
\<close>

function replaceAll_loop :: "rx \<Rightarrow> string \<Rightarrow> string \<Rightarrow> nat \<Rightarrow> nat \<Rightarrow> string \<Rightarrow> string" where
  "replaceAll_loop re src repl lastMatchEnd searchPos buf =
     (if searchPos \<le> length src then
        (case doExecute re src searchPos of
           None \<Rightarrow> buf @ drop lastMatchEnd src
         | Some (a0, a1) \<Rightarrow>
             (let buf1 = buf @ take (a0 - lastMatchEnd) (drop lastMatchEnd src);
                  buf2 = (if a1 > lastMatchEnd \<or> a0 = 0 then buf1 @ repl else buf1);
                  width = (if searchPos < length src then 1 else 0)
              in replaceAll_loop re src repl a1
                   (if searchPos + width > a1 then searchPos + width
                    else if searchPos + 1 > a1 then searchPos + 1
                    else a1)
                   buf2))
      else buf @ drop lastMatchEnd src)"
  by pat_completeness auto
termination
proof (relation "measure (\<lambda>(re, src, repl, lastMatchEnd, searchPos, buf). Suc (length src) - searchPos)")
  show "wf (measure (\<lambda>(re, src, repl, lastMatchEnd, searchPos, buf). Suc (length src) - searchPos))"
    by simp
next
  fix re src repl and lastMatchEnd searchPos :: nat and buf :: string and x2 a0 a1 buf1 buf2 and width :: nat
  assume le: "searchPos \<le> length src"
    and ex: "doExecute re src searchPos = Some x2" "(a0, a1) = x2"
    and w: "width = (if searchPos < length src then 1 else 0)"
  from ex have "search (length src) re (drop searchPos src) = Some (a0, a1)"
    by (simp add: doExecute_def)
  from search_bounds[OF this] le have "searchPos \<le> a1" "a1 \<le> length src"
    by auto
  then show "((re, src, repl, a1,
         if a1 < searchPos + width then searchPos + width
         else if a1 < searchPos + 1 then searchPos + 1 else a1, buf2),
        re, src, repl, lastMatchEnd, searchPos, buf)
       \<in> measure (\<lambda>(re, src, repl, lastMatchEnd, searchPos, buf). Suc (length src) - searchPos)"
    using le w by auto
qed


declare replaceAll_loop.simps [simp del]

lemma replaceAll_loop_None:
  "doExecute re src searchPos = None \<Longrightarrow>
   replaceAll_loop re src repl lastMatchEnd searchPos buf = buf @ drop lastMatchEnd src"
  by (subst replaceAll_loop.simps) simp

lemma replaceAll_loop_past_end:
  "length src < searchPos \<Longrightarrow>
   replaceAll_loop re src repl lastMatchEnd searchPos buf = buf @ drop lastMatchEnd src"
  by (subst replaceAll_loop.simps) simp

lemma replaceAll_loop_Some:
  "searchPos \<le> length src \<Longrightarrow> doExecute re src searchPos = Some (a0, a1) \<Longrightarrow>
   replaceAll_loop re src repl lastMatchEnd searchPos buf =
     replaceAll_loop re src repl a1
       (if searchPos + (if searchPos < length src then 1 else 0) > a1
        then searchPos + (if searchPos < length src then 1 else 0)
        else if searchPos + 1 > a1 then searchPos + 1 else a1)
       (if a1 > lastMatchEnd \<or> a0 = 0
        then (buf @ take (a0 - lastMatchEnd) (drop lastMatchEnd src)) @ repl
        else buf @ take (a0 - lastMatchEnd) (drop lastMatchEnd src))"
  by (subst replaceAll_loop.simps) (simp add: Let_def)

definition ReplaceAllString :: "rx \<Rightarrow> string \<Rightarrow> string \<Rightarrow> string" where
  "ReplaceAllString re src repl = replaceAll_loop re src repl 0 0 []"

definition FindString :: "rx \<Rightarrow> string \<Rightarrow> string" where
  \<comment> \<open>the text of the leftmost match, the empty string when there is none\<close>
  "FindString re s =
     (case doExecute re s 0 of None \<Rightarrow> [] | Some (a0, a1) \<Rightarrow> take (a1 - a0) (drop a0 s))"

definition to_lower :: "char \<Rightarrow> char" where
  \<comment> \<open>\<open>A\<close> to \<open>Z\<close> become \<open>a\<close> to \<open>z\<close>; every other ASCII character is kept\<close>
  "to_lower c =
     (let n = (of_char c :: nat) in if 65 \<le> n \<and> n \<le> 90 then char_of (n + 32) else c)"

definition ToLower :: "string \<Rightarrow> string" where
  \<comment> \<open>\<open>strings.ToLower\<close> on ASCII text; \<open>dbOperation\<close> applies it to a match of \<open>^\w+\<close> only\<close>
  "ToLower s = map to_lower s"

text \<open>\<open>dbOperation\<close>, lines 163 to 168.\<close>

definition dbOperation :: "string \<Rightarrow> string" where
  "dbOperation query =
     (let s = ReplaceAllString cCommentRegex query [];
          s = ReplaceAllString lineCommentRegex s [];
          s = ReplaceAllString sqlPrefixRegex s []
      in ToLower (FindString firstWordRegex s))"

subsection \<open>The Operation Classifier as the specification words it\<close>

text \<open>
  Section 4.4 of the specification: remove block comments (\<open>/* ... */\<close>, multi-line,
  non-greedy), remove line comments (from \<open>--\<close> or \<open>#\<close> to the end of the line), strip
  leading whitespace and semicolons, take the leading run of word characters, lower-case
  it. The functions below follow these words, with no regular expression.
  \<open>after_close s\<close> is the text after the first \<open>*/\<close> of \<open>s\<close>; \<open>block_comment_at s\<close> is
  the text after the block comment that starts \<open>s\<close>, if one does and it is closed; and
  \<open>line_comment_at s\<close> is the rest of the line's text after the line comment that
  starts \<open>s\<close>, if one does.
\<close>

fun after_close :: "string \<Rightarrow> string option" where
  "after_close (c # d # cs) =
     (if c = CHR ''*'' \<and> d = CHR ''/'' then Some cs else after_close (d # cs))"
| "after_close _ = None"

definition block_comment_at :: "string \<Rightarrow> string option" where
  "block_comment_at s =
     (case s of
        c # d # ds \<Rightarrow> if c = CHR ''/'' \<and> d = CHR ''*'' then after_close ds else None
      | _ \<Rightarrow> None)"

definition line_comment_at :: "string \<Rightarrow> string option" where
  "line_comment_at s =
     (case s of
        [] \<Rightarrow> None
      | c # cs \<Rightarrow>
          if c = CHR ''#'' then Some (dropWhile (\<lambda>x. x \<noteq> newline) cs)
          else (case cs of
                  [] \<Rightarrow> None
                | d # ds \<Rightarrow>
                    if c = CHR ''-'' \<and> d = CHR ''-'' then Some (dropWhile (\<lambda>x. x \<noteq> newline) ds)
                    else None))"

lemma after_close_length: "after_close s = Some r \<Longrightarrow> length r < length s"
  by (induction s arbitrary: r rule: after_close.induct) (auto split: if_splits)

lemma block_comment_at_length: "block_comment_at s = Some r \<Longrightarrow> length r < length s"
  by (auto simp: block_comment_at_def split: list.splits if_splits dest: after_close_length)

lemma line_comment_at_length: "line_comment_at s = Some r \<Longrightarrow> length r < length s"
  by (auto simp: line_comment_at_def less_Suc_eq_le length_dropWhile_le le_SucI
      split: list.splits if_splits)

function strip_block_comments :: "string \<Rightarrow> string" where
  "strip_block_comments [] = []"
| "strip_block_comments (c # cs) =
     (case block_comment_at (c # cs) of
        Some rest \<Rightarrow> strip_block_comments rest
      | None \<Rightarrow> c # strip_block_comments cs)"
  by pat_completeness auto
termination
  by (relation "measure length") (auto dest: block_comment_at_length)

function strip_line_comments :: "string \<Rightarrow> string" where
  "strip_line_comments [] = []"
| "strip_line_comments (c # cs) =
     (case line_comment_at (c # cs) of
        Some rest \<Rightarrow> strip_line_comments rest
      | None \<Rightarrow> c # strip_line_comments cs)"
  by pat_completeness auto
termination
  by (relation "measure length") (auto dest: line_comment_at_length)

definition is_separator :: "char \<Rightarrow> bool" where
  "is_separator c = (is_space c \<or> c = CHR '';'')"

definition classify :: "string \<Rightarrow> string" where
  \<comment> \<open>the Operation Classifier in the specification's words; whitespace is the class \<open>\s\<close> and
      a word character is of the class \<open>\w\<close>, as in the patterns\<close>
  "classify s =
     map to_lower (takeWhile is_word (dropWhile is_separator
       (strip_line_comments (strip_block_comments s))))"

section \<open>The plugin and its collaborators\<close>

subsection \<open>Errors\<close>

text \<open>
  A Go \<open>error\<close> is an \<open>err option\<close>, \<open>None\<close> for \<open>nil\<close>. The four sentinel values that
  the after hook names are constructors of their own; \<open>Errorf msg e\<close> is the value of
  \<open>fmt.Errorf\<close> with the verb \<open>%w\<close>: an error with the text \<open>msg\<close> that wraps \<open>e\<close>.
  It is a value different from \<open>e\<close>, as in Go, where \<open>switch\<close> compares with \<open>==\<close>.
\<close>

datatype err =
    GormErrRecordNotFound   \<comment> \<open>\<open>gorm.ErrRecordNotFound\<close>\<close>
  | DriverErrSkip           \<comment> \<open>\<open>driver.ErrSkip\<close>\<close>
  | IoEOF                   \<comment> \<open>\<open>io.EOF\<close>\<close>
  | SqlErrNoRows            \<comment> \<open>\<open>sql.ErrNoRows\<close>\<close>
  | OtherError string       \<comment> \<open>any other error value, by its text\<close>
  | Errorf string err

fun Unwrap :: "err \<Rightarrow> err option" where
  \<comment> \<open>\<open>errors.Unwrap\<close>: the error that a value of \<open>fmt.Errorf\<close> with \<open>%w\<close> wraps\<close>
  "Unwrap (Errorf msg e) = Some e"
| "Unwrap _ = None"

datatype fault = Fault      \<comment> \<open>a panic raised inside a collaborator\<close>

datatype outcome = Returned | Panicked

subsection \<open>Configuration, lines 24 to 49, and options.go\<close>

record PluginConfig =
  ExcludeQueryVars :: bool
  ExcludeMetrics :: bool
  QueryFormatter :: "(string \<Rightarrow> fault + string) option"

record Plugin =
  excludeQueryVars :: bool
  excludeMetrics :: bool
  queryFormatter :: "(string \<Rightarrow> fault + string) option"

type_synonym Option = "PluginConfig \<Rightarrow> PluginConfig"

definition WithExcludeQueryVars :: "bool \<Rightarrow> Option" where
  "WithExcludeQueryVars exclude = (\<lambda>pc. pc\<lparr>ExcludeQueryVars := exclude\<rparr>)"

definition WithQueryFormatter :: "(string \<Rightarrow> fault + string) option \<Rightarrow> Option" where
  \<comment> \<open>the argument is a Go function value: \<open>None\<close> is the nil function\<close>
  "WithQueryFormatter formatter = (\<lambda>pc. pc\<lparr>QueryFormatter := formatter\<rparr>)"

definition NewPlugin :: "Option list \<Rightarrow> Plugin" where
  "NewPlugin opts =
     (let cfg = fold (\<lambda>opt cfg. opt cfg) opts
                  \<lparr>ExcludeQueryVars = False, ExcludeMetrics = False, QueryFormatter = None\<rparr>
      in \<lparr>excludeQueryVars = ExcludeQueryVars cfg,
          excludeMetrics = ExcludeMetrics cfg,
          queryFormatter = QueryFormatter cfg\<rparr>)"

definition Name :: "Plugin \<Rightarrow> string" where
  "Name p = ''xraytracing''"

subsection \<open>The Operation Instance\<close>

text \<open>
  \<open>tx *gorm.DB\<close> with the fields of \<open>tx.Statement\<close> that the hooks touch. \<open>'ctx\<close> is
  \<open>context.Context\<close>, \<open>'seg\<close> the segment that an \<open>*xray.Segment\<close> points to, \<open>'var\<close> a bound
  parameter value. \<open>Settings\<close> is the store behind \<open>InstanceSet\<close> and \<open>InstanceGet\<close>, which
  belongs to this one statement; a stored value is an \<open>interface{}\<close>: the nil interface,
  an \<open>*xray.Segment\<close> (\<open>None\<close> for the nil pointer), or a value of another type.
\<close>

datatype 'seg ival =
    NilInterface
  | SegmentPtr "'seg option"
  | OtherValue string

record ('ctx, 'seg, 'var) DB =
  Context :: 'ctx
  SQL :: string
  Vars :: "'var list"
  Table :: string
  RowsAffected :: "64 word"
  Error :: "err option"
  Settings :: "string \<rightharpoonup> 'seg ival"

definition InstanceSet :: "('ctx, 'seg, 'var) DB \<Rightarrow> string \<Rightarrow> 'seg ival \<Rightarrow> ('ctx, 'seg, 'var) DB" where
  "InstanceSet tx key v = tx\<lparr>Settings := (Settings tx)(key \<mapsto> v)\<rparr>"

definition InstanceGet :: "('ctx, 'seg, 'var) DB \<Rightarrow> string \<Rightarrow> 'seg ival \<times> bool" where
  "InstanceGet tx key = (case Settings tx key of None \<Rightarrow> (NilInterface, False) | Some v \<Rightarrow> (v, True))"

subsection \<open>The tracing collaborator and the host's renderer\<close>

text \<open>
  The hooks use the X-Ray SDK and the dialector through their Go signatures; what these
  return is a parameter of the model. \<open>GetSegment\<close>, \<open>BeginSegment\<close> and \<open>BeginSubsegment\<close>
  return values and no error. \<open>Explain\<close>, the query formatter and the methods of a
  segment may panic: \<open>Explain\<close> and the formatter return \<open>Inl Fault\<close> then, and
  \<open>span_faults\<close> says which calls on a segment do.
\<close>

datatype mdvalue = MString string | MInt64 "64 word"

datatype span_op =
    AddMetadata string mdvalue
  | AddError err
  | Close "err option"

record ('ctx, 'seg, 'var) collaborators =
  GetSegment :: "'ctx \<Rightarrow> 'seg option"
  BeginSegment :: "'ctx \<Rightarrow> string \<Rightarrow> 'ctx \<times> 'seg option"
  BeginSubsegment :: "'ctx \<Rightarrow> string \<Rightarrow> 'ctx \<times> 'seg option"
  Explain :: "string \<Rightarrow> 'var list \<Rightarrow> fault + string"
  span_faults :: "'seg \<Rightarrow> span_op \<Rightarrow> bool"

text \<open>
  What a hook does to the outside is the sequence of the calls it issues. A call is
  recorded when it is issued, also when it then panics.
\<close>

datatype ('ctx, 'seg, 'var) event =
    BeginSegmentCall 'ctx string
  | BeginSubsegmentCall 'ctx string
  | ExplainCall string "'var list"
  | FormatterCall string
  | SpanCall 'seg span_op

type_synonym ('ctx, 'seg, 'var) run = "('ctx, 'seg, 'var) event list \<times> outcome"

definition span_call ::
  "('ctx, 'seg, 'var) collaborators \<Rightarrow> 'seg \<Rightarrow> span_op \<Rightarrow> ('ctx, 'seg, 'var) run \<Rightarrow> ('ctx, 'seg, 'var) run" where
  \<comment> \<open>the next statement is a call on the segment: it runs unless a panic is under way\<close>
  "span_call env seg op r =
     (case r of
        (log, Panicked) \<Rightarrow> (log, Panicked)
      | (log, Returned) \<Rightarrow>
          (log @ [SpanCall seg op], if span_faults env seg op then Panicked else Returned))"

definition deferred_close ::
  "('ctx, 'seg, 'var) collaborators \<Rightarrow> 'seg \<Rightarrow> ('ctx, 'seg, 'var) run \<Rightarrow> ('ctx, 'seg, 'var) run" where
  \<comment> \<open>\<open>defer subSegment.Close(nil)\<close>: runs when the function leaves, by return or by panic\<close>
  "deferred_close env seg r =
     (case r of
        (log, out) \<Rightarrow>
          (log @ [SpanCall seg (Close None)],
           if out = Panicked \<or> span_faults env seg (Close None) then Panicked else Returned))"

subsection \<open>The before hook, lines 97 to 107\<close>

definition before ::
  "Plugin \<Rightarrow> ('ctx, 'seg, 'var) collaborators \<Rightarrow> string \<Rightarrow> ('ctx, 'seg, 'var) DB
     \<Rightarrow> ('ctx, 'seg, 'var) DB \<times> ('ctx, 'seg, 'var) event list" where
  "before p env spanName tx =
     (let (tx1, log1) =
            (if GetSegment env (Context tx) = None
             then (tx\<lparr>Context := fst (BeginSegment env (Context tx) ''FallbackParent'')\<rparr>,
                   [BeginSegmentCall (Context tx) ''FallbackParent''])
             else (tx, []));
          (ctx, seg) = BeginSubsegment env (Context tx1) spanName;
          log2 = log1 @ [BeginSubsegmentCall (Context tx1) spanName];
          tx2 = tx1\<lparr>Context := ctx\<rparr>
      in (InstanceSet tx2 ''xray_subsegment'' (SegmentPtr seg), log2))"

subsection \<open>The after hook, lines 110 to 160\<close>

definition formatQuery :: "Plugin \<Rightarrow> string \<Rightarrow> ('ctx, 'seg, 'var) event list \<times> (fault + string)" where
  "formatQuery p query =
     (case queryFormatter p of
        Some f \<Rightarrow> ([FormatterCall query], f query)
      | None \<Rightarrow> ([], Inr query))"

definition after_query ::
  "Plugin \<Rightarrow> ('ctx, 'seg, 'var) collaborators \<Rightarrow> ('ctx, 'seg, 'var) DB
     \<Rightarrow> ('ctx, 'seg, 'var) event list \<times> (fault + string)" where
  \<comment> \<open>lines 123 to 128: the variable \<open>query\<close>\<close>
  "after_query p env tx =
     (if excludeQueryVars p then ([], Inr (SQL tx))
      else ([ExplainCall (SQL tx) (Vars tx)], Explain env (SQL tx) (Vars tx)))"

definition after_body ::
  "Plugin \<Rightarrow> ('ctx, 'seg, 'var) collaborators \<Rightarrow> ('ctx, 'seg, 'var) DB \<Rightarrow> 'seg
     \<Rightarrow> ('ctx, 'seg, 'var) run" where
  \<comment> \<open>lines 123 to 150: the statements after the \<open>defer\<close>\<close>
  "after_body p env tx subSegment =
     (case after_query p env tx of
        (log1, Inl _) \<Rightarrow> (log1, Panicked)
      | (log1, Inr query) \<Rightarrow>
          (case formatQuery p query of
             (log2, Inl _) \<Rightarrow> (log1 @ log2, Panicked)
           | (log2, Inr formatted) \<Rightarrow>
               (let r = (log1 @ log2, Returned);
                    r = span_call env subSegment (AddMetadata ''db.query'' (MString formatted)) r;
                    r = span_call env subSegment
                          (AddMetadata ''db.operation'' (MString (dbOperation formatted))) r;
                    r = (if Table tx \<noteq> []
                         then span_call env subSegment (AddMetadata ''db.table'' (MString (Table tx))) r
                         else r);
                    r = (if RowsAffected tx \<noteq> - 1
                         then span_call env subSegment
                                (AddMetadata ''db.rows.affected'' (MInt64 (RowsAffected tx))) r
                         else r)
                in (case Error tx of
                      None \<Rightarrow> r
                    | Some e \<Rightarrow>
                        if e = GormErrRecordNotFound \<or> e = DriverErrSkip \<or> e = IoEOF \<or> e = SqlErrNoRows
                        then r
                        else span_call env subSegment (AddError e) r))))"

definition after ::
  "Plugin \<Rightarrow> ('ctx, 'seg, 'var) collaborators \<Rightarrow> ('ctx, 'seg, 'var) DB \<Rightarrow> ('ctx, 'seg, 'var) run" where
  "after p env tx =
     (case InstanceGet tx ''xray_subsegment'' of
        (val, ok) \<Rightarrow>
          if \<not> ok then ([], Returned)
          else (case val of
                  SegmentPtr (Some subSegment) \<Rightarrow>
                    deferred_close env subSegment (after_body p env tx subSegment)
                | _ \<Rightarrow> ([], Returned)))"

subsection \<open>Initialize, lines 63 to 94\<close>

text \<open>
  \<open>cb.Create().Before("gorm:create")\<close> is \<open>Before Create ''gorm:create''\<close>. A hook value is
  the closure that \<open>p.before(spanName)\<close> or \<open>p.after()\<close> returns; \<open>run_hook\<close> is what calling
  it does. \<open>Register\<close> is the host's: it is a parameter, may change the host's state
  \<open>'h\<close>, and returns an error or \<open>nil\<close>.
\<close>

datatype processor = Create | Query | Delete | Update | Row | Raw

datatype callback = Before processor string | After processor string

datatype gormHookFunc = before_hook string | after_hook

definition run_hook ::
  "Plugin \<Rightarrow> ('ctx, 'seg, 'var) collaborators \<Rightarrow> gormHookFunc \<Rightarrow> ('ctx, 'seg, 'var) DB
     \<Rightarrow> ('ctx, 'seg, 'var) DB \<times> ('ctx, 'seg, 'var) run" where
  "run_hook p env h tx =
     (case h of
        before_hook spanName \<Rightarrow> (case before p env spanName tx of (tx', log) \<Rightarrow> (tx', (log, Returned)))
      | after_hook \<Rightarrow> (tx, after p env tx))"

type_synonym 'h gormRegister = "'h \<Rightarrow> callback \<Rightarrow> string \<Rightarrow> gormHookFunc \<Rightarrow> err option \<times> 'h"

definition hooks :: "Plugin \<Rightarrow> (callback \<times> gormHookFunc \<times> string) list" where
  "hooks p =
     [(Before Create ''gorm:create'', before_hook ''gorm.Create'', ''before:create''),
      (After Create ''gorm:create'', after_hook, ''after:create''),
      (Before Query ''gorm:query'', before_hook ''gorm.Query'', ''before:select''),
      (After Query ''gorm:query'', after_hook, ''after:select''),
      (Before Delete ''gorm:delete'', before_hook ''gorm.Delete'', ''before:delete''),
      (After Delete ''gorm:delete'', after_hook, ''after:delete''),
      (Before Update ''gorm:update'', before_hook ''gorm.Update'', ''before:update''),
      (After Update ''gorm:update'', after_hook, ''after:update''),
      (Before Row ''gorm:row'', before_hook ''gorm.Row'', ''before:row''),
      (After Row ''gorm:row'', after_hook, ''after:row''),
      (Before Raw ''gorm:raw'', before_hook ''gorm.Raw'', ''before:raw''),
      (After Raw ''gorm:raw'', after_hook, ''after:raw'')]"

text \<open>
  The state of the loop of lines 85 to 91: \<open>firstErr\<close>, the host, the \<open>Register\<close> calls
  made so far, each with what it returned, and the lines written by \<open>log.Printf\<close>.
\<close>

record 'h init_state =
  firstErr :: "err option"
  host :: 'h
  registered :: "((callback \<times> string \<times> gormHookFunc) \<times> err option) list"
  logged :: "(string \<times> err) list"

fun Initialize_loop ::
  "'h gormRegister \<Rightarrow> (callback \<times> gormHookFunc \<times> string) list \<Rightarrow> 'h init_state \<Rightarrow> 'h init_state" where
  "Initialize_loop register [] st = st"
| "Initialize_loop register ((cb, hook, name) # hs) st =
     (case register (host st) cb (''xray:'' @ name) hook of
        (err, host') \<Rightarrow>
          (let st1 = st\<lparr>host := host',
                         registered := registered st @ [((cb, ''xray:'' @ name, hook), err)]\<rparr>
           in (case err of
                 Some e \<Rightarrow>
                   if firstErr st = None
                   then Initialize_loop register hs
                          (st1\<lparr>firstErr := Some (Errorf (''callback register '' @ name @ '' failed'') e),
                               logged := logged st @ [(name, e)]\<rparr>)
                   else Initialize_loop register hs st1
               | None \<Rightarrow> Initialize_loop register hs st1)))"

definition Initialize :: "Plugin \<Rightarrow> 'h gormRegister \<Rightarrow> 'h \<Rightarrow> 'h init_state" where
  \<comment> \<open>the value Initialize returns is \<open>firstErr\<close> of the result\<close>
  "Initialize p register db =
     Initialize_loop register (hooks p)
       \<lparr>firstErr = None, host = db, registered = [], logged = []\<rparr>"

section \<open>Observations on what a hook did\<close>

text \<open>
  The calls that a run issued on segments, and among them the values recorded under a
  metadata key, the same with the segment that received each, the error markers with the
  segment that received each, the segments closed; the calls to the host's renderer and
  to the query formatter.
\<close>

fun span_op_of :: "('ctx, 'seg, 'var) event \<Rightarrow> ('seg \<times> span_op) option" where
  "span_op_of (SpanCall s op) = Some (s, op)"
| "span_op_of _ = None"

definition span_ops :: "('ctx, 'seg, 'var) event list \<Rightarrow> ('seg \<times> span_op) list" where
  "span_ops log = List.map_filter span_op_of log"

fun metadata_of :: "string \<Rightarrow> 'seg \<times> span_op \<Rightarrow> mdvalue option" where
  "metadata_of key (s, AddMetadata k v) = (if k = key then Some v else None)"
| "metadata_of key _ = None"

definition metadata :: "string \<Rightarrow> ('ctx, 'seg, 'var) event list \<Rightarrow> mdvalue list" where
  "metadata key log = List.map_filter (metadata_of key) (span_ops log)"

fun received_of :: "string \<Rightarrow> 'seg \<times> span_op \<Rightarrow> ('seg \<times> mdvalue) option" where
  "received_of key (s, AddMetadata k v) = (if k = key then Some (s, v) else None)"
| "received_of key _ = None"

definition metadata_received :: "string \<Rightarrow> ('ctx, 'seg, 'var) event list \<Rightarrow> ('seg \<times> mdvalue) list" where
  \<comment> \<open>every \<open>AddMetadata\<close> under the key, with the segment that received it\<close>
  "metadata_received key log = List.map_filter (received_of key) (span_ops log)"

fun error_of :: "'seg \<times> span_op \<Rightarrow> ('seg \<times> err) option" where
  "error_of (s, AddError e) = Some (s, e)"
| "error_of _ = None"

definition error_markers :: "('ctx, 'seg, 'var) event list \<Rightarrow> ('seg \<times> err) list" where
  \<comment> \<open>every \<open>AddError\<close>, with the segment that received it\<close>
  "error_markers log = List.map_filter error_of (span_ops log)"

fun closed_of :: "'seg \<times> span_op \<Rightarrow> 'seg option" where
  "closed_of (s, Close e) = Some s"
| "closed_of _ = None"

definition closes :: "('ctx, 'seg, 'var) event list \<Rightarrow> 'seg list" where
  "closes log = List.map_filter closed_of (span_ops log)"

fun explain_of :: "('ctx, 'seg, 'var) event \<Rightarrow> (string \<times> 'var list) option" where
  "explain_of (ExplainCall s vs) = Some (s, vs)"
| "explain_of _ = None"

definition explain_calls :: "('ctx, 'seg, 'var) event list \<Rightarrow> (string \<times> 'var list) list" where
  "explain_calls log = List.map_filter explain_of log"

fun formatter_of :: "('ctx, 'seg, 'var) event \<Rightarrow> string option" where
  "formatter_of (FormatterCall q) = Some q"
| "formatter_of _ = None"

definition formatter_calls :: "('ctx, 'seg, 'var) event list \<Rightarrow> string list" where
  "formatter_calls log = List.map_filter formatter_of log"

text \<open>
  The calls on the segment that lines 131 to 150 make when nothing panics, in program
  order, and the part of such a list that is issued when a call may panic: every call up
  to and including the first one that does.
\<close>

definition planned_calls :: "('ctx, 'seg, 'var) DB \<Rightarrow> string \<Rightarrow> span_op list" where
  "planned_calls tx formatted =
     [AddMetadata ''db.query'' (MString formatted),
      AddMetadata ''db.operation'' (MString (dbOperation formatted))]
     @ (if Table tx \<noteq> [] then [AddMetadata ''db.table'' (MString (Table tx))] else [])
     @ (if RowsAffected tx \<noteq> - 1 then [AddMetadata ''db.rows.affected'' (MInt64 (RowsAffected tx))]
        else [])
     @ (case Error tx of
          None \<Rightarrow> []
        | Some e \<Rightarrow>
            if e = GormErrRecordNotFound \<or> e = DriverErrSkip \<or> e = IoEOF \<or> e = SqlErrNoRows
            then [] else [AddError e])"

fun issued :: "('ctx, 'seg, 'var) collaborators \<Rightarrow> 'seg \<Rightarrow> span_op list \<Rightarrow> span_op list \<times> outcome" where
  "issued env seg [] = ([], Returned)"
| "issued env seg (op # ops) =
     (if span_faults env seg op then ([op], Panicked)
      else (op # fst (issued env seg ops), snd (issued env seg ops)))"

text \<open>
  For Initialize: the twelve \<open>Register\<close> calls of the table of lines 66 to 83, the run of
  a list of such calls on the host one after the other, whatever each returns, the first
  failure among recorded results, and the error that line 88 builds from it (the name
  that line 88 formats is the registered name without its prefix \<open>xray:\<close>).
\<close>

type_synonym registration = "callback \<times> string \<times> gormHookFunc"

fun first_failure :: "(registration \<times> err option) list \<Rightarrow> (string \<times> err) option" where
  "first_failure [] = None"
| "first_failure (((cb, name, hook), r) # rs) =
     (case r of Some e \<Rightarrow> Some (name, e) | None \<Rightarrow> first_failure rs)"

fun register_all :: "'h gormRegister \<Rightarrow> 'h \<Rightarrow> registration list \<Rightarrow> err option list \<times> 'h" where
  "register_all register h [] = ([], h)"
| "register_all register h ((cb, name, hook) # cs) =
     (case register h cb name hook of
        (r, h') \<Rightarrow> (case register_all register h' cs of (rs, h'') \<Rightarrow> (r # rs, h'')))"

definition registrations :: "Plugin \<Rightarrow> registration list" where
  "registrations p = map (\<lambda>(cb, hook, name). (cb, ''xray:'' @ name, hook)) (hooks p)"

definition surfaced :: "(string \<times> err) option \<Rightarrow> err option" where
  "surfaced f =
     (case f of
        None \<Rightarrow> None
      | Some (name, e) \<Rightarrow> Some (Errorf (''callback register '' @ drop 5 name @ '' failed'') e))"

section \<open>Example values\<close>

text \<open>
  Collaborators that never panic and collaborators whose every segment method except
  \<open>Close\<close> panics; an Operation Instance that carries a segment and one that does not; a
  plugin with the default configuration and one that redacts; a host whose \<open>Register\<close>
  refuses two of the names.
\<close>

definition interpolate :: "string \<Rightarrow> string list \<Rightarrow> string" where
  "interpolate sql vars = concat (map (\<lambda>c. if c = CHR ''?'' then concat vars else [c]) sql)"

definition steady_collaborators :: "(nat, nat, string) collaborators" where
  "steady_collaborators =
     \<lparr>GetSegment = (\<lambda>ctx. if ctx = 0 then None else Some ctx),
      BeginSegment = (\<lambda>ctx name. (100, Some 100)),
      BeginSubsegment = (\<lambda>ctx name. (Suc ctx, Some (Suc ctx))),
      Explain = (\<lambda>sql vars. Inr (interpolate sql vars)),
      span_faults = (\<lambda>seg op. False)\<rparr>"

definition faulty_collaborators :: "(nat, nat, string) collaborators" where
  "faulty_collaborators =
     steady_collaborators\<lparr>span_faults := (\<lambda>seg op. op \<noteq> Close None)\<rparr>"

definition traced_tx :: "(nat, nat, string) DB" where
  "traced_tx =
     \<lparr>Context = 8, SQL = ''SELECT * FROM users WHERE id = ?'', Vars = [''42''],
      Table = ''users'', RowsAffected = 1, Error = None,
      Settings = [''xray_subsegment'' \<mapsto> SegmentPtr (Some 8)]\<rparr>"

definition untraced_tx :: "(nat, nat, string) DB" where
  "untraced_tx = traced_tx\<lparr>Context := 0, Settings := Map.empty\<rparr>"

definition default_plugin :: Plugin where
  "default_plugin = NewPlugin []"

definition redact :: "string \<Rightarrow> fault + string" where
  "redact q = Inr (''/* redacted */ '' @ takeWhile (\<lambda>c. c \<noteq> CHR '' '') q)"

definition redacting_plugin :: Plugin where
  "redacting_plugin = NewPlugin [WithExcludeQueryVars True, WithQueryFormatter (Some redact)]"

definition flaky_register :: "string list gormRegister" where
  "flaky_register h cb name hook =
     (if name = ''xray:after:select'' \<or> name = ''xray:before:row''
      then (Some (OtherError (''no such callback for '' @ name)), h)
      else (None, h @ [name]))"

definition steady_register :: "string list gormRegister" where
  "steady_register h cb name hook = (None, h @ [name])"

lemmas example_defs =
  steady_collaborators_def faulty_collaborators_def traced_tx_def untraced_tx_def
  default_plugin_def redacting_plugin_def NewPlugin_def WithExcludeQueryVars_def
  WithQueryFormatter_def InstanceGet_def

lemmas after_unfold =
  after_def after_body_def after_query_def formatQuery_def deferred_close_def Let_def

section \<open>The Operation Classifier: the patterns do what the specification says\<close>

text \<open>
  Every result of the matcher is a rest of the text it was given; with that, one round of
  the replace-all loop splits the text at the leftmost match.
\<close>

lemma star_greedy_suffix: "r \<in> set (star_greedy a s) \<Longrightarrow> r = drop (length s - length r) s"
proof (induction s)
  case Nil then show ?case by simp
next
  case (Cons c cs)
  show ?case
  proof (cases "r = c # cs")
    case True then show ?thesis by simp
  next
    case False
    with Cons.prems have in_tl: "r \<in> set (star_greedy a cs)" by (auto split: if_splits)
    then have "length r \<le> length cs" by (rule star_greedy_len)
    then have "length (c # cs) - length r = Suc (length cs - length r)" by simp
    with Cons.IH[OF in_tl] show ?thesis by simp
  qed
qed

lemma star_lazy_suffix: "r \<in> set (star_lazy a s) \<Longrightarrow> r = drop (length s - length r) s"
proof (induction s)
  case Nil then show ?case by simp
next
  case (Cons c cs)
  show ?case
  proof (cases "r = c # cs")
    case True then show ?thesis by simp
  next
    case False
    with Cons.prems have in_tl: "r \<in> set (star_lazy a cs)" by (auto split: if_splits)
    then have "length r \<le> length cs" by (rule star_lazy_len)
    then have "length (c # cs) - length r = Suc (length cs - length r)" by simp
    with Cons.IH[OF in_tl] show ?thesis by simp
  qed
qed

lemma rmatch_suffix: "r \<in> set (rmatch n re s) \<Longrightarrow> r = drop (length s - length r) s"
proof (induction re arbitrary: r s)
  case (Seq r1 r2)
  then obtain x where x: "x \<in> set (rmatch n r1 s)" and r: "r \<in> set (rmatch n r2 x)"
    by auto
  have lx: "length x \<le> length s" and lr: "length r \<le> length x"
    using x r by (auto dest: rmatch_len)
  have "r = drop (length x - length r) x" using Seq.IH(2)[OF r] .
  also have "x = drop (length s - length x) s" using Seq.IH(1)[OF x] .
  finally show ?case using lx lr by simp
next
  case (Plus a)
  then obtain c cs where s: "s = c # cs" and r: "r \<in> set (star_greedy a cs)"
    by (auto split: list.splits if_splits)
  have "length r \<le> length cs" using r by (rule star_greedy_len)
  then have "length s - length r = Suc (length cs - length r)" using s by simp
  with star_greedy_suffix[OF r] s show ?case by simp
qed (auto split: list.splits if_splits dest: star_greedy_suffix star_lazy_suffix)


lemma search_None_keeps:
  assumes feq: "\<And>s. f s = (case s of [] \<Rightarrow> [] | c # cs \<Rightarrow>
                  (case rmatch n re s of [] \<Rightarrow> c # f cs | r # _ \<Rightarrow> f r))"
  shows "search n re s = None \<Longrightarrow> f s = s"
proof (induction s)
  case Nil
  show ?case by (subst feq) simp
next
  case (Cons c cs)
  from Cons.prems have none: "rmatch n re (c # cs) = []" and tl: "search n re cs = None"
    by (auto simp: search.simps[of n re "c # cs"] split: list.splits)
  have "f (c # cs) = c # f cs" by (subst feq) (simp add: none)
  with Cons.IH[OF tl] show ?case by simp
qed

lemma search_Some_splits:
  assumes feq: "\<And>s. f s = (case s of [] \<Rightarrow> [] | c # cs \<Rightarrow>
                  (case rmatch n re s of [] \<Rightarrow> c # f cs | r # _ \<Rightarrow> f r))"
    and nonempty: "\<And>s r. r \<in> set (rmatch n re s) \<Longrightarrow> length r < length s"
  shows "length s \<le> n \<Longrightarrow> search n re s = Some (a0, a1) \<Longrightarrow>
         a0 < a1 \<and> f s = take (a0 - (n - length s)) s @ f (drop (a1 - (n - length s)) s)"
proof (induction s)
  case Nil
  have "rmatch n re [] = []"
  proof (cases "rmatch n re []")
    case (Cons r rs)
    then have "r \<in> set (rmatch n re [])" by simp
    from nonempty[OF this] show ?thesis by simp
  qed simp
  with Nil.prems show ?case by (simp add: search.simps)
next
  case (Cons c cs)
  show ?case
  proof (cases "rmatch n re (c # cs)")
    case Nil
    with Cons.prems have tl: "search n re cs = Some (a0, a1)" and len: "length cs \<le> n"
      by (auto simp: search.simps[of n re "c # cs"])
    from search_bounds[OF tl len] have lo: "n - length cs \<le> a0" by simp
    have off: "n - length cs = Suc (n - length (c # cs))" using Cons.prems(1) by simp
    have fc: "f (c # cs) = c # f cs" by (subst feq) (simp add: Nil)
    from Cons.IH[OF len tl] have lt: "a0 < a1"
      and split: "f cs = take (a0 - (n - length cs)) cs @ f (drop (a1 - (n - length cs)) cs)"
      by auto
    have t: "take (a0 - (n - length (c # cs))) (c # cs) = c # take (a0 - (n - length cs)) cs"
      using lo off by (simp add: take_Cons' )
    have d: "drop (a1 - (n - length (c # cs))) (c # cs) = drop (a1 - (n - length cs)) cs"
      using lo lt off by (simp add: drop_Cons')
    show ?thesis using lt by (simp only: fc t d) (simp add: split[symmetric])
  next
    case (Cons r rs)
    then have mem: "r \<in> set (rmatch n re (c # cs))" by simp
    have lr: "length r < length (c # cs)" using nonempty[OF mem] .
    have suf: "r = drop (length (c # cs) - length r) (c # cs)" using rmatch_suffix[OF mem] .
    from Cons Cons.prems have a0: "a0 = n - length (c # cs)" and a1: "a1 = n - length r"
      by (auto simp: search.simps[of n re "c # cs"])
    have fr: "f (c # cs) = f r" by (subst feq) (simp add: Cons)
    have "a1 - (n - length (c # cs)) = length (c # cs) - length r"
      using a1 lr Cons.prems(1) by simp
    then have d: "drop (a1 - (n - length (c # cs))) (c # cs) = r" using suf by simp
    have "a0 < a1" using a0 a1 lr Cons.prems(1) by simp
    then show ?thesis by (simp only: d fr) (simp add: a0)
  qed
qed

lemma replaceAll_loop_deletes:
  assumes feq: "\<And>s. f s = (case s of [] \<Rightarrow> [] | c # cs \<Rightarrow>
                  (case rmatch (length src) re s of [] \<Rightarrow> c # f cs | r # _ \<Rightarrow> f r))"
    and nonempty: "\<And>s r. r \<in> set (rmatch (length src) re s) \<Longrightarrow> length r < length s"
  shows "p \<le> length src \<Longrightarrow> replaceAll_loop re src [] p p buf = buf @ f (drop p src)"
proof (induction "length src - p" arbitrary: p buf rule: less_induct)
  case less
  let ?n = "length src"
  let ?s = "drop p src"
  have len: "length ?s \<le> ?n" by simp
  have off: "?n - length ?s = p" using less.prems by simp
  show ?case
  proof (cases "search ?n re ?s")
    case None
    have "f ?s = ?s" using search_None_keeps[of f ?n re, OF feq None] .
    moreover have "doExecute re src p = None" using None by (simp add: doExecute_def)
    ultimately show ?thesis by (simp add: replaceAll_loop_None)
  next
    case (Some m)
    obtain a0 a1 where m: "m = (a0, a1)" by (cases m)
    have s: "search ?n re ?s = Some (a0, a1)" using Some m by simp
    from search_bounds[OF s len] have b: "p \<le> a0" "a0 \<le> a1" "a1 \<le> ?n"
      using off by auto
    from search_Some_splits[of f ?n re, OF feq nonempty len s]
    have lt: "a0 < a1" and split: "f ?s = take (a0 - p) ?s @ f (drop (a1 - p) ?s)"
      using off by auto
    have d: "drop (a1 - p) ?s = drop a1 src" using b by simp
    have less': "?n - a1 < ?n - p" using b lt less.prems by simp
    have next_pos: "(if p + (if p < ?n then 1 else 0) > a1 then p + (if p < ?n then 1 else 0)
                     else if p + 1 > a1 then p + 1 else a1) = a1"
      using b lt by simp
    have ex: "doExecute re src p = Some (a0, a1)" using s by (simp add: doExecute_def)
    have "replaceAll_loop re src [] p p buf
          = replaceAll_loop re src [] a1 a1 (buf @ take (a0 - p) ?s)"
      unfolding replaceAll_loop_Some[OF less.prems ex] next_pos by simp
    also have "\<dots> = (buf @ take (a0 - p) ?s) @ f (drop a1 src)"
      using less.hyps[OF less' b(3)] .
    finally show ?thesis by (simp only: split d append_assoc)
  qed
qed


lemma lazy_close_first:
  "(case concat (map (rmatch n (Seq (Atom (Lit (CHR ''*''))) (Atom (Lit (CHR ''/'')))))
                 (star_lazy (Dot True) s)) of
      [] \<Rightarrow> None | r # _ \<Rightarrow> Some r) = after_close s"
proof (induction s rule: after_close.induct)
  case (1 c d cs)
  then show ?case by (auto split: list.splits)
qed auto

lemma cComment_first:
  "(case rmatch n cCommentRegex s of [] \<Rightarrow> None | r # _ \<Rightarrow> Some r) = block_comment_at s"
proof (cases s)
  case Nil
  then show ?thesis by (simp add: cCommentRegex_def block_comment_at_def)
next
  case (Cons c cs)
  show ?thesis
  proof (cases cs)
    case Nil
    with Cons show ?thesis by (simp add: cCommentRegex_def block_comment_at_def)
  next
    case (Cons d ds)
    show ?thesis
    proof (cases "c = CHR ''/'' \<and> d = CHR ''*''")
      case True
      with \<open>s = c # cs\<close> Cons lazy_close_first[of n ds] show ?thesis
        by (simp add: cCommentRegex_def block_comment_at_def)
    next
      case False
      with \<open>s = c # cs\<close> Cons show ?thesis
        by (auto simp: cCommentRegex_def block_comment_at_def)
    qed
  qed
qed

lemma cComment_nonempty: "r \<in> set (rmatch n cCommentRegex s) \<Longrightarrow> length r < length s"
proof -
  assume "r \<in> set (rmatch n cCommentRegex s)"
  then obtain c cs where s: "s = c # cs"
    and r: "r \<in> set (rmatch n (Seq (Atom (Lit (CHR ''*''))) (Seq (StarLazy (Dot True))
                  (Seq (Atom (Lit (CHR ''*''))) (Atom (Lit (CHR ''/'')))))) cs)"
    unfolding cCommentRegex_def by (cases s) (auto split: if_splits)
  from rmatch_len[OF r] s show ?thesis by simp
qed

lemma strip_block_comments_unfold:
  "strip_block_comments s =
     (case s of [] \<Rightarrow> [] | c # cs \<Rightarrow>
        (case rmatch n cCommentRegex s of [] \<Rightarrow> c # strip_block_comments cs
                                        | r # _ \<Rightarrow> strip_block_comments r))"
proof (cases s)
  case Nil then show ?thesis by simp
next
  case (Cons c cs)
  have "block_comment_at (c # cs) =
          (case rmatch n cCommentRegex (c # cs) of [] \<Rightarrow> None | r # _ \<Rightarrow> Some r)"
    by (simp only: cComment_first)
  then show ?thesis using Cons
    by (cases "rmatch n cCommentRegex (c # cs)") simp_all
qed

lemma ReplaceAllString_cComment:
  "ReplaceAllString cCommentRegex src [] = strip_block_comments src"
  unfolding ReplaceAllString_def
  using replaceAll_loop_deletes[of strip_block_comments src cCommentRegex 0 "[]",
      OF strip_block_comments_unfold cComment_nonempty]
  by simp

lemma lazy_to_EndLine:
  "concat (map (rmatch n EndLine) (star_lazy (Dot False) s)) = [dropWhile (\<lambda>x. x \<noteq> newline) s]"
  by (induction s) auto

lemma lineComment_matches:
  "rmatch n lineCommentRegex s = (case line_comment_at s of None \<Rightarrow> [] | Some r \<Rightarrow> [r])"
proof (cases s)
  case Nil
  then show ?thesis by (simp add: lineCommentRegex_def line_comment_at_def)
next
  case (Cons c cs)
  then show ?thesis
    by (cases cs) (auto simp: lineCommentRegex_def line_comment_at_def lazy_to_EndLine)
qed

lemma lineComment_nonempty: "r \<in> set (rmatch n lineCommentRegex s) \<Longrightarrow> length r < length s"
proof -
  assume "r \<in> set (rmatch n lineCommentRegex s)"
  then have "line_comment_at s = Some r"
    by (cases "line_comment_at s") (simp_all add: lineComment_matches)
  then show ?thesis by (rule line_comment_at_length)
qed

lemma strip_line_comments_unfold:
  "strip_line_comments s =
     (case s of [] \<Rightarrow> [] | c # cs \<Rightarrow>
        (case rmatch n lineCommentRegex s of [] \<Rightarrow> c # strip_line_comments cs
                                           | r # _ \<Rightarrow> strip_line_comments r))"
  by (cases s) (simp_all add: lineComment_matches split: option.splits)

lemma ReplaceAllString_lineComment:
  "ReplaceAllString lineCommentRegex src [] = strip_line_comments src"
  unfolding ReplaceAllString_def
  using replaceAll_loop_deletes[of strip_line_comments src lineCommentRegex 0 "[]",
      OF strip_line_comments_unfold lineComment_nonempty]
  by simp


lemma length_minus_dropWhile:
  "length xs - length (dropWhile P xs) = length (takeWhile P xs)"
proof -
  have "length (takeWhile P xs) + length (dropWhile P xs) = length xs"
    by (simp only: length_append[symmetric] takeWhile_dropWhile_id)
  then show ?thesis by simp
qed

lemma star_greedy_first: "\<exists>rs. star_greedy a s = dropWhile (atom_ok a) s # rs"
  by (induction s) auto

lemma search_anchored_later:
  "length s < n \<Longrightarrow> search n (Seq BeginText r) s = None"
  by (induction s) (simp_all add: search.simps[of n _ "[]"] search.simps[of n _ "_ # _"])

lemma atom_ok_separator: "atom_ok (OneOf [PerlSpace, Lit (CHR '';'')]) = is_separator"
  by (rule ext) (simp add: is_separator_def)

lemma doExecute_sqlPrefix_0:
  "doExecute sqlPrefixRegex src 0 = Some (0, length (takeWhile is_separator src))"
proof -
  obtain rs where "star_greedy (OneOf [PerlSpace, Lit (CHR '';'')]) src
                     = dropWhile is_separator src # rs"
    using star_greedy_first[of "OneOf [PerlSpace, Lit (CHR '';'')]" src]
    by (auto simp: atom_ok_separator)
  moreover have "length src - length (dropWhile is_separator src)
                   = length (takeWhile is_separator src)"
    by (rule length_minus_dropWhile)
  ultimately show ?thesis
    by (simp add: doExecute_def sqlPrefixRegex_def search.simps[of _ _ src])
qed

lemma doExecute_anchored_later:
  "0 < pos \<Longrightarrow> pos \<le> length src \<Longrightarrow> doExecute (Seq BeginText r) src pos = None"
  by (simp add: doExecute_def search_anchored_later)

lemma ReplaceAllString_sqlPrefix:
  "ReplaceAllString sqlPrefixRegex src [] = dropWhile is_separator src"
proof -
  let ?k = "length (takeWhile is_separator src)"
  let ?p = "if 0 + (if 0 < length src then 1 else 0) > ?k
            then 0 + (if 0 < length src then 1 else (0::nat))
            else if 0 + 1 > ?k then 0 + 1 else ?k"
  have pos: "0 < ?p" by auto
  have step: "replaceAll_loop sqlPrefixRegex src [] 0 0 []
              = replaceAll_loop sqlPrefixRegex src [] ?k ?p []"
    using replaceAll_loop_Some[of 0 src sqlPrefixRegex 0 ?k "[]" 0 "[]", OF _ doExecute_sqlPrefix_0]
    by simp
  have "replaceAll_loop sqlPrefixRegex src [] ?k ?p [] = drop ?k src"
  proof (cases "?p \<le> length src")
    case True
    have "doExecute sqlPrefixRegex src ?p = None"
      unfolding sqlPrefixRegex_def using pos True by (rule doExecute_anchored_later)
    then show ?thesis by (simp only: replaceAll_loop_None append_Nil)
  next
    case False
    then have "length src < ?p" by simp
    then show ?thesis by (simp only: replaceAll_loop_past_end append_Nil)
  qed
  then show ?thesis
    by (simp add: ReplaceAllString_def step dropWhile_eq_drop)
qed

lemma FindString_firstWord: "FindString firstWordRegex s = takeWhile is_word s"
proof (cases s)
  case Nil
  then show ?thesis
    by (simp add: FindString_def doExecute_def firstWordRegex_def search.simps[of _ _ "[]"])
next
  case (Cons c cs)
  show ?thesis
  proof (cases "is_word c")
    case False
    have "search (length s) (Seq BeginText (Plus PerlWord)) cs = None"
      using Cons by (simp add: search_anchored_later)
    with Cons False show ?thesis
      by (simp add: FindString_def doExecute_def firstWordRegex_def search.simps[of _ _ "c # cs"])
  next
    case True
    have "atom_ok PerlWord = is_word" by (rule ext) simp
    then obtain rs where rs: "star_greedy PerlWord cs = dropWhile is_word cs # rs"
      using star_greedy_first[of PerlWord cs] by auto
    have len: "length cs - length (dropWhile is_word cs) = length (takeWhile is_word cs)"
      by (rule length_minus_dropWhile)
    have suc: "Suc (length cs) - length (dropWhile is_word cs) = Suc (length (takeWhile is_word cs))"
      using len length_dropWhile_le[of is_word cs] by simp
    have tk: "take (length (takeWhile is_word cs)) cs = takeWhile is_word cs"
      by (rule takeWhile_eq_take[symmetric])
    from Cons True rs show ?thesis
      by (simp add: FindString_def doExecute_def firstWordRegex_def search.simps[of _ _ "c # cs"]
          suc tk)
  qed
qed

lemma dbOperation_classify: "dbOperation s = classify s"
  by (simp add: dbOperation_def classify_def ToLower_def ReplaceAllString_cComment
      ReplaceAllString_lineComment ReplaceAllString_sqlPrefix FindString_firstWord)


lemma to_lower_word: "is_word c \<Longrightarrow> is_word (to_lower c) \<and> to_lower (to_lower c) = to_lower c"
  by (auto simp: is_word_def to_lower_def Let_def)

lemma classify_lower_word: "list_all (\<lambda>c. is_word c \<and> to_lower c = c) (classify s)"
proof -
  have "\<forall>c \<in> set (takeWhile is_word xs). is_word c" for xs
    by (auto dest: set_takeWhileD)
  then show ?thesis
    by (auto simp: classify_def list_all_iff to_lower_word)
qed

text \<open>
  C2. For every statement string, \<open>dbOperation\<close> (the regular expressions of plugin.go run
  by Go's replace-all loop) computes what the specification's words describe: block
  comments removed, then line comments, then leading whitespace and semicolons, then the
  leading run of word characters, lower-cased; the result holds lower-case word
  characters only and is empty when no keyword leads. The function is total: it never
  fails. The three examples of the specification evaluate as it says.
\<close>

theorem dbOperation_classifies:
  "dbOperation s = classify s
   \<and> list_all (\<lambda>c. is_word c \<and> to_lower c = c) (dbOperation s)
   \<and> dbOperation (''/* x */  -- y'' @ [newline] @ ''  SELECT 1'') = ''select''
   \<and> dbOperation ''   '' = []
   \<and> dbOperation '';;INSERT INTO t VALUES (1)'' = ''insert''"
proof (intro conjI)
  show "dbOperation s = classify s" by (rule dbOperation_classify)
  show "list_all (\<lambda>c. is_word c \<and> to_lower c = c) (dbOperation s)"
    by (simp only: dbOperation_classify classify_lower_word)
  show "dbOperation (''/* x */  -- y'' @ [newline] @ ''  SELECT 1'') = ''select''"
    by code_simp
  show "dbOperation ''   '' = []" by code_simp
  show "dbOperation '';;INSERT INTO t VALUES (1)'' = ''insert''" by code_simp
qed

section \<open>The after hook\<close>

subsection \<open>The shape of a run\<close>

lemma map_filter_append: "List.map_filter f (xs @ ys) = List.map_filter f xs @ List.map_filter f ys"
  by (simp add: List.map_filter_def)

lemma map_filter_none: "(\<And>x. x \<in> set xs \<Longrightarrow> f x = None) \<Longrightarrow> List.map_filter f xs = []"
  by (induction xs) (simp_all add: List.map_filter_simps)

lemma map_filter_take_prefix:
  "\<exists>j. List.map_filter f (take k xs) = take j (List.map_filter f xs)"
proof (induction xs arbitrary: k)
  case Nil
  show ?case by (simp add: List.map_filter_simps)
next
  case (Cons x xs)
  show ?case
  proof (cases k)
    case 0
    have "List.map_filter f (take 0 (x # xs)) = take 0 (List.map_filter f (x # xs))"
      by (simp add: List.map_filter_simps)
    with 0 show ?thesis by blast
  next
    case (Suc k')
    obtain j where j: "List.map_filter f (take k' xs) = take j (List.map_filter f xs)"
      using Cons.IH by blast
    show ?thesis
    proof (cases "f x")
      case None
      with Suc j have "List.map_filter f (take k (x # xs)) = take j (List.map_filter f (x # xs))"
        by (simp add: List.map_filter_simps)
      then show ?thesis by blast
    next
      case (Some y)
      with Suc j have "List.map_filter f (take k (x # xs)) = take (Suc j) (List.map_filter f (x # xs))"
        by (simp add: List.map_filter_simps)
      then show ?thesis by blast
    qed
  qed
qed

lemma span_ops_simps [simp]:
  "span_ops [] = []"
  "span_ops (SpanCall s op # log) = (s, op) # span_ops log"
  "span_ops (ExplainCall q vs # log) = span_ops log"
  "span_ops (FormatterCall q # log) = span_ops log"
  "span_ops (BeginSegmentCall c n # log) = span_ops log"
  "span_ops (BeginSubsegmentCall c n # log) = span_ops log"
  "span_ops (xs @ ys) = span_ops xs @ span_ops ys"
  by (simp_all add: span_ops_def List.map_filter_def)

lemma span_ops_map_SpanCall [simp]: "span_ops (map (SpanCall seg) ops) = map (Pair seg) ops"
  by (induction ops) simp_all

lemma explain_calls_simps [simp]:
  "explain_calls [] = []"
  "explain_calls (ExplainCall q vs # log) = (q, vs) # explain_calls log"
  "explain_calls (SpanCall s op # log) = explain_calls log"
  "explain_calls (FormatterCall q # log) = explain_calls log"
  "explain_calls (xs @ ys) = explain_calls xs @ explain_calls ys"
  by (simp_all add: explain_calls_def List.map_filter_def)

lemma formatter_calls_simps [simp]:
  "formatter_calls [] = []"
  "formatter_calls (FormatterCall q # log) = q # formatter_calls log"
  "formatter_calls (SpanCall s op # log) = formatter_calls log"
  "formatter_calls (ExplainCall q vs # log) = formatter_calls log"
  "formatter_calls (xs @ ys) = formatter_calls xs @ formatter_calls ys"
  by (simp_all add: formatter_calls_def List.map_filter_def)

lemma explain_calls_span [simp]: "explain_calls (map (SpanCall seg) ops) = []"
  by (induction ops) simp_all

lemma formatter_calls_span [simp]: "formatter_calls (map (SpanCall seg) ops) = []"
  by (induction ops) simp_all

lemma span_call_step [simp]:
  "span_call env seg op (log, Panicked) = (log, Panicked)"
  "span_call env seg op (log, Returned) =
     (log @ [SpanCall seg op], if span_faults env seg op then Panicked else Returned)"
  by (simp_all add: span_call_def)

lemma span_call_eq:
  "span_call env seg op r =
     (fst r @ (if snd r = Returned then [SpanCall seg op] else []),
      if snd r = Panicked \<or> span_faults env seg op then Panicked else Returned)"
  by (cases r; cases "snd r") (auto simp: span_call_def)

lemma deferred_close_eq:
  "deferred_close env seg r =
     (fst r @ [SpanCall seg (Close None)],
      if snd r = Panicked \<or> span_faults env seg (Close None) then Panicked else Returned)"
  by (cases r) (simp add: deferred_close_def)

lemma after_attached:
  "InstanceGet tx ''xray_subsegment'' = (SegmentPtr (Some seg), True) \<Longrightarrow>
   after p env tx = deferred_close env seg (after_body p env tx seg)"
  by (simp add: after_def)

lemma span_calls_after_panic:
  "foldl (\<lambda>r op. span_call env seg op r) (log, Panicked) ops = (log, Panicked)"
  by (induction ops) simp_all

lemma span_calls_issued:
  "foldl (\<lambda>r op. span_call env seg op r) (log, Returned) ops =
     (log @ map (SpanCall seg) (fst (issued env seg ops)), snd (issued env seg ops))"
proof (induction ops arbitrary: log)
  case Nil
  show ?case by simp
next
  case (Cons op ops)
  show ?case
  proof (cases "span_faults env seg op")
    case True
    then show ?thesis by (simp add: span_calls_after_panic)
  next
    case False
    then show ?thesis by (simp add: Cons.IH)
  qed
qed

lemma issued_prefix: "\<exists>k. fst (issued env seg ops) = take k ops"
proof (induction ops)
  case Nil
  show ?case by simp
next
  case (Cons op ops)
  then obtain k where k: "fst (issued env seg ops) = take k ops" by blast
  show ?case
  proof (cases "span_faults env seg op")
    case True
    then have "fst (issued env seg (op # ops)) = take 1 (op # ops)" by simp
    then show ?thesis by blast
  next
    case False
    then have "fst (issued env seg (op # ops)) = take (Suc k) (op # ops)" by (simp add: k)
    then show ?thesis by blast
  qed
qed

lemma issued_all: "snd (issued env seg ops) = Returned \<Longrightarrow> fst (issued env seg ops) = ops"
  by (induction ops) (auto split: if_splits)

lemma after_body_planned:
  assumes "after_query p env tx = (log1, Inr query)"
    and "formatQuery p query = (log2, Inr formatted)"
  shows "after_body p env tx seg =
           foldl (\<lambda>r op. span_call env seg op r) (log1 @ log2, Returned) (planned_calls tx formatted)"
  using assms
  by (cases "Error tx") (simp_all add: after_body_def planned_calls_def Let_def)

lemma after_query_no_span_ops: "after_query p env tx = (log, r) \<Longrightarrow> span_ops log = []"
  by (auto simp: after_query_def split: if_splits)

lemma formatQuery_no_span_ops: "formatQuery p q = (log, r) \<Longrightarrow> span_ops log = []"
  by (auto simp: formatQuery_def split: option.splits)

lemma formatQuery_result:
  "formatQuery p query = (log2, r) \<Longrightarrow>
   (case queryFormatter p of
      None \<Rightarrow> r = Inr query \<and> log2 = []
    | Some f \<Rightarrow> r = f query \<and> log2 = [FormatterCall query])"
  by (auto simp: formatQuery_def split: option.splits)

lemma after_body_cases:
  fixes env :: "('ctx, 'seg, 'var) collaborators"
  obtains
    (explain_fault) log1 where
      "after_query p env tx = (log1, Inl Fault)"
      "after_body p env tx seg = (log1, Panicked)"
  | (format_fault) log1 query log2 where
      "after_query p env tx = (log1, Inr query)"
      "formatQuery p query = (log2 :: ('ctx, 'seg, 'var) event list, Inl Fault)"
      "after_body p env tx seg = (log1 @ log2, Panicked)"
  | (calls) log1 query log2 formatted where
      "after_query p env tx = (log1, Inr query)"
      "formatQuery p query = (log2 :: ('ctx, 'seg, 'var) event list, Inr formatted)"
      "after_body p env tx seg =
         (log1 @ log2 @ map (SpanCall seg) (fst (issued env seg (planned_calls tx formatted))),
          snd (issued env seg (planned_calls tx formatted)))"
proof -
  obtain log1 r1 where q: "after_query p env tx = (log1, r1)"
    by (cases "after_query p env tx")
  show thesis
  proof (cases r1)
    case (Inl f)
    then have "r1 = Inl Fault" by (cases f) simp
    with q show thesis
      by (intro explain_fault[of log1]) (simp_all add: after_body_def)
  next
    case (Inr query)
    obtain log2 r2 where f: "formatQuery p query = (log2 :: ('ctx, 'seg, 'var) event list, r2)"
      by (cases "formatQuery p query :: ('ctx, 'seg, 'var) event list \<times> (fault + string)")
    show thesis
    proof (cases r2)
      case (Inl f')
      then have "r2 = Inl Fault" by (cases f') simp
      with q Inr f show thesis
        by (intro format_fault[of log1 query log2]) (simp_all add: after_body_def)
    next
      case Inr2: (Inr formatted)
      from q Inr have q': "after_query p env tx = (log1, Inr query)" by simp
      from f Inr2 have f': "formatQuery p query = (log2, Inr formatted)" by simp
      show thesis
        by (rule calls[OF q' f'])
           (simp add: after_body_planned[OF q' f'] span_calls_issued)
    qed
  qed
qed

lemma after_shape:
  fixes env :: "('ctx, 'seg, 'var) collaborators"
  assumes att: "InstanceGet tx ''xray_subsegment'' = (SegmentPtr (Some seg), True)"
  obtains pre ops formatted k where
    "fst (after p env tx) = pre @ map (SpanCall seg) (ops @ [Close None])"
    "span_ops pre = []"
    "ops = take k (planned_calls tx formatted)"
proof (cases rule: after_body_cases[of p env tx seg])
  case (explain_fault log1)
  have "span_ops log1 = []"
    using explain_fault(1) by (rule after_query_no_span_ops)
  then show ?thesis
    using that[of log1 "[]" 0 "[]"] explain_fault(2)
    by (simp add: after_attached[OF att] deferred_close_eq)
next
  case (format_fault log1 query log2)
  have "span_ops log1 = []"
    using format_fault(1) by (rule after_query_no_span_ops)
  moreover have "span_ops log2 = []"
    using format_fault(2) by (rule formatQuery_no_span_ops)
  ultimately show ?thesis
    using that[of "log1 @ log2" "[]" 0 "[]"] format_fault(3)
    by (simp add: after_attached[OF att] deferred_close_eq)
next
  case (calls log1 query log2 formatted)
  have "span_ops log1 = []"
    using calls(1) by (rule after_query_no_span_ops)
  moreover have "span_ops log2 = []"
    using calls(2) by (rule formatQuery_no_span_ops)
  moreover obtain k where "fst (issued env seg (planned_calls tx formatted))
                             = take k (planned_calls tx formatted)"
    using issued_prefix[of env seg "planned_calls tx formatted"] by blast
  ultimately show ?thesis
    using that[of "log1 @ log2" "take k (planned_calls tx formatted)" k formatted] calls(3)
    by (simp add: after_attached[OF att] deferred_close_eq)
qed

lemma after_returned:
  fixes env :: "('ctx, 'seg, 'var) collaborators"
  assumes att: "InstanceGet tx ''xray_subsegment'' = (SegmentPtr (Some seg), True)"
    and ret: "snd (after p env tx) = Returned"
  obtains log1 query log2 formatted where
    "after_query p env tx = (log1, Inr query)"
    "formatQuery p query = (log2 :: ('ctx, 'seg, 'var) event list, Inr formatted)"
    "fst (after p env tx) = log1 @ log2 @ map (SpanCall seg) (planned_calls tx formatted @ [Close None])"
proof (cases rule: after_body_cases[of p env tx seg])
  case (explain_fault log1)
  with ret show ?thesis by (simp add: after_attached[OF att] deferred_close_eq)
next
  case (format_fault log1 query log2)
  with ret show ?thesis by (simp add: after_attached[OF att] deferred_close_eq)
next
  case (calls log1 query log2 formatted)
  from ret calls(3) have "snd (issued env seg (planned_calls tx formatted)) = Returned"
    by (cases "snd (issued env seg (planned_calls tx formatted))")
       (simp_all add: after_attached[OF att] deferred_close_eq split: if_splits)
  then have "fst (issued env seg (planned_calls tx formatted)) = planned_calls tx formatted"
    by (rule issued_all)
  with calls show ?thesis
    using that[of log1 query log2 formatted]
    by (simp add: after_attached[OF att] deferred_close_eq)
qed

lemma planned_calls_no_close: "op \<in> set (planned_calls tx formatted) \<Longrightarrow> closed_of (seg, op) = None"
  by (auto simp: planned_calls_def split: option.splits if_splits)

lemma planned_calls_errors:
  "List.map_filter error_of (map (Pair seg) (planned_calls tx formatted)) =
     (case Error tx of
        None \<Rightarrow> []
      | Some e \<Rightarrow>
          if e = GormErrRecordNotFound \<or> e = DriverErrSkip \<or> e = IoEOF \<or> e = SqlErrNoRows
          then [] else [(seg, e)])"
  by (simp add: planned_calls_def List.map_filter_simps map_filter_append split: option.splits)

lemma error_markers_shape:
  assumes "fst (after p env tx) = pre @ map (SpanCall seg) (ops @ [Close None])"
    and "span_ops pre = []"
  shows "error_markers (fst (after p env tx)) = List.map_filter error_of (map (Pair seg) ops)"
  using assms by (simp add: error_markers_def map_filter_append List.map_filter_simps)

lemma metadata_returned:
  assumes "fst (after p env tx) = log1 @ log2 @ map (SpanCall seg) (planned_calls tx fq @ [Close None])"
    and "span_ops log1 = []" and "span_ops log2 = []"
  shows "metadata ''db.query'' (fst (after p env tx)) = [MString fq]"
    and "metadata ''db.operation'' (fst (after p env tx)) = [MString (dbOperation fq)]"
    and "metadata ''db.table'' (fst (after p env tx))
           = (if Table tx \<noteq> [] then [MString (Table tx)] else [])"
    and "metadata ''db.rows.affected'' (fst (after p env tx))
           = (if RowsAffected tx \<noteq> - 1 then [MInt64 (RowsAffected tx)] else [])"
  using assms
  by (simp_all add: metadata_def planned_calls_def map_filter_append List.map_filter_simps
      split: option.splits)

lemma metadata_received_returned:
  assumes "fst (after p env tx) = log1 @ log2 @ map (SpanCall seg) (planned_calls tx fq @ [Close None])"
    and "span_ops log1 = []" and "span_ops log2 = []"
  shows "metadata_received ''db.query'' (fst (after p env tx)) = [(seg, MString fq)]"
    and "metadata_received ''db.operation'' (fst (after p env tx)) = [(seg, MString (dbOperation fq))]"
    and "metadata_received ''db.table'' (fst (after p env tx))
           = (if Table tx \<noteq> [] then [(seg, MString (Table tx))] else [])"
    and "metadata_received ''db.rows.affected'' (fst (after p env tx))
           = (if RowsAffected tx \<noteq> - 1 then [(seg, MInt64 (RowsAffected tx))] else [])"
  using assms
  by (simp_all add: metadata_received_def planned_calls_def map_filter_append List.map_filter_simps
      split: option.splits)

lemma after_explain_calls:
  fixes env :: "('ctx, 'seg, 'var) collaborators"
  shows "excludeQueryVars p \<Longrightarrow> explain_calls (fst (after p env tx)) = []"
proof -
  assume ex: "excludeQueryVars p"
  obtain v ok where ig: "InstanceGet tx ''xray_subsegment'' = (v, ok)"
    by (cases "InstanceGet tx ''xray_subsegment''")
  show ?thesis
  proof (cases "\<exists>seg. v = SegmentPtr (Some seg) \<and> ok")
    case False
    then have "after p env tx = ([], Returned)"
      using ig by (auto simp: after_def split: ival.splits option.splits)
    then show ?thesis by simp
  next
    case True
    then obtain seg where att: "InstanceGet tx ''xray_subsegment'' = (SegmentPtr (Some seg), True)"
      using ig by auto
    have q: "after_query p env tx = ([], Inr (SQL tx))"
      using ex by (simp add: after_query_def)
    show ?thesis
    proof (cases rule: after_body_cases[of p env tx seg])
      case (explain_fault log1)
      with q show ?thesis by simp
    next
      case (format_fault log1 query log2)
      with q formatQuery_result[OF format_fault(2)] show ?thesis
        by (auto simp: after_attached[OF att] deferred_close_eq split: option.splits)
    next
      case (calls log1 query log2 formatted)
      with q formatQuery_result[OF calls(2)] show ?thesis
        by (auto simp: after_attached[OF att] deferred_close_eq split: option.splits)
    qed
  qed
qed

lemma dbOperation_examples:
  "dbOperation ''SELECT * FROM users WHERE id = 42'' = ''select''"
  "dbOperation ''/* redacted */ SELECT'' = ''select''"
  by code_simp+

lemma interpolate_example:
  "interpolate ''SELECT * FROM users WHERE id = ?'' [''42''] = ''SELECT * FROM users WHERE id = 42''"
  by (simp add: interpolate_def)

subsection \<open>The span is closed exactly once\<close>

text \<open>
  C1. When the side-channel of the Operation Instance holds a segment, the after hook
  closes that segment exactly once, as the last thing it does, whatever the renderer, the
  formatter and the methods of the segment do, a panic in any of them included. When
  the side-channel holds nothing under the key, the hook issues no call at all and
  returns normally.
\<close>

theorem after_closes_once:
  "(InstanceGet tx ''xray_subsegment'' = (SegmentPtr (Some seg), True) \<longrightarrow>
      closes (fst (after p env tx)) = [seg]
      \<and> (\<exists>body. fst (after p env tx) = body @ [SpanCall seg (Close None)]))
   \<and> (snd (InstanceGet tx ''xray_subsegment'') = False \<longrightarrow> after p env tx = ([], Returned))"
proof (intro conjI impI)
  assume att: "InstanceGet tx ''xray_subsegment'' = (SegmentPtr (Some seg), True)"
  from att obtain pre ops formatted k where
    shape: "fst (after p env tx) = pre @ map (SpanCall seg) (ops @ [Close None])"
    and pre: "span_ops pre = []"
    and ops: "ops = take k (planned_calls tx formatted)"
    by (rule after_shape)
  have "List.map_filter closed_of (map (Pair seg) ops) = []"
  proof (rule map_filter_none)
    fix x assume "x \<in> set (map (Pair seg) ops)"
    then obtain op where "x = (seg, op)" "op \<in> set (planned_calls tx formatted)"
      using ops by (auto dest: in_set_takeD)
    then show "closed_of x = None" by (simp add: planned_calls_no_close)
  qed
  then show "closes (fst (after p env tx)) = [seg]"
    by (simp add: shape closes_def pre map_filter_append List.map_filter_simps)
  show "\<exists>body. fst (after p env tx) = body @ [SpanCall seg (Close None)]"
    using shape by (intro exI[of _ "pre @ map (SpanCall seg) ops"]) simp
next
  assume "snd (InstanceGet tx ''xray_subsegment'') = False"
  then show "after p env tx = ([], Returned)"
    by (cases "InstanceGet tx ''xray_subsegment''") (simp add: after_def)
qed

theorem after_closes_once_witness:
  "closes (fst (after default_plugin faulty_collaborators traced_tx)) = [8]
   \<and> (\<exists>body. fst (after default_plugin faulty_collaborators traced_tx)
                 = body @ [SpanCall 8 (Close None)])
   \<and> snd (after default_plugin faulty_collaborators traced_tx) = Panicked
   \<and> after default_plugin faulty_collaborators untraced_tx = ([], Returned)"
  using after_closes_once[of traced_tx 8 default_plugin faulty_collaborators]
        after_closes_once[of untraced_tx 8 default_plugin faulty_collaborators]
  by (simp add: example_defs after_unfold)

subsection \<open>A value that is no live segment\<close>

text \<open>
  C10. When the side-channel holds a value under the key that is not a segment pointer,
  or is the nil segment pointer, or is the nil interface, the after hook returns at
  once: no metadata, no error marker, no close, no call of any kind, and it returns
  normally.
\<close>

theorem after_ignores_other_values:
  "InstanceGet tx ''xray_subsegment'' = (v, True) \<Longrightarrow>
   v = NilInterface \<or> v = SegmentPtr None \<or> v = OtherValue x \<Longrightarrow>
   after p env tx = ([], Returned)"
  by (auto simp: after_def)

theorem after_ignores_other_values_witness:
  "after default_plugin steady_collaborators
     (traced_tx\<lparr>Settings := [''xray_subsegment'' \<mapsto> SegmentPtr None]\<rparr>) = ([], Returned)
   \<and> after default_plugin steady_collaborators
     (traced_tx\<lparr>Settings := [''xray_subsegment'' \<mapsto> OtherValue ''span'']\<rparr>) = ([], Returned)
   \<and> after default_plugin steady_collaborators
     (traced_tx\<lparr>Settings := [''xray_subsegment'' \<mapsto> NilInterface]\<rparr>) = ([], Returned)"
  using after_ignores_other_values[of "traced_tx\<lparr>Settings := [''xray_subsegment'' \<mapsto> SegmentPtr None]\<rparr>"
          "SegmentPtr None" "''span''" default_plugin steady_collaborators]
        after_ignores_other_values[of "traced_tx\<lparr>Settings := [''xray_subsegment'' \<mapsto> OtherValue ''span'']\<rparr>"
          "OtherValue ''span''" "''span''" default_plugin steady_collaborators]
        after_ignores_other_values[of "traced_tx\<lparr>Settings := [''xray_subsegment'' \<mapsto> NilInterface]\<rparr>"
          "NilInterface" "''span''" default_plugin steady_collaborators]
  by (simp add: example_defs)

subsection \<open>Which errors are marked\<close>

text \<open>
  C3. With a segment attached: when the terminal error is nil, \<open>gorm.ErrRecordNotFound\<close>,
  \<open>driver.ErrSkip\<close>, \<open>io.EOF\<close> or \<open>sql.ErrNoRows\<close>, no segment gets an error marker, in
  every run; when it is any other error and the hook returns normally (no collaborator
  panics), exactly one error marker is set: on the attached segment, and it is that
  error. In no run is there more than one marker, a marker on another segment or a
  marker other than the terminal error. The comparison is equality of values: an error
  that wraps a sentinel is not that sentinel.
\<close>

theorem after_error_markers:
  assumes att: "InstanceGet tx ''xray_subsegment'' = (SegmentPtr (Some seg), True)"
  shows "(Error tx \<in> {None, Some GormErrRecordNotFound, Some DriverErrSkip, Some IoEOF,
                       Some SqlErrNoRows} \<longrightarrow>
            error_markers (fst (after p env tx)) = [])
         \<and> (Error tx = Some e \<and> e \<notin> {GormErrRecordNotFound, DriverErrSkip, IoEOF, SqlErrNoRows}
              \<and> snd (after p env tx) = Returned \<longrightarrow>
            error_markers (fst (after p env tx)) = [(seg, e)])
         \<and> (Error tx = Some e \<longrightarrow>
            error_markers (fst (after p env tx)) = [] \<or> error_markers (fst (after p env tx)) = [(seg, e)])"
proof -
  from att obtain pre ops formatted k where
    shape: "fst (after p env tx) = pre @ map (SpanCall seg) (ops @ [Close None])"
    and pre: "span_ops pre = []"
    and ops: "ops = take k (planned_calls tx formatted)"
    by (rule after_shape)
  have em: "error_markers (fst (after p env tx)) = List.map_filter error_of (map (Pair seg) ops)"
    using shape pre by (rule error_markers_shape)
  obtain j where j: "List.map_filter error_of (map (Pair seg) ops)
                       = take j (List.map_filter error_of (map (Pair seg) (planned_calls tx formatted)))"
    using map_filter_take_prefix[of error_of k "map (Pair seg) (planned_calls tx formatted)"]
    by (auto simp: ops take_map)
  have ignorable: "error_markers (fst (after p env tx)) = []"
    if "Error tx \<in> {None, Some GormErrRecordNotFound, Some DriverErrSkip, Some IoEOF, Some SqlErrNoRows}"
    using that by (auto simp: em j planned_calls_errors)
  have atmost: "error_markers (fst (after p env tx)) = [] \<or> error_markers (fst (after p env tx)) = [(seg, e)]"
    if "Error tx = Some e"
    using that by (cases j) (auto simp: em j planned_calls_errors)
  have reportable: "error_markers (fst (after p env tx)) = [(seg, e)]"
    if e: "Error tx = Some e" "e \<notin> {GormErrRecordNotFound, DriverErrSkip, IoEOF, SqlErrNoRows}"
      and ret: "snd (after p env tx) = Returned"
  proof -
    from att ret obtain log1 query log2 fq where
      q: "after_query p env tx = (log1, Inr query)"
      and f: "formatQuery p query = (log2, Inr fq)"
      and full: "fst (after p env tx) = log1 @ log2 @ map (SpanCall seg) (planned_calls tx fq @ [Close None])"
      by (rule after_returned)
    have "span_ops (log1 @ log2) = []"
      using after_query_no_span_ops[OF q] formatQuery_no_span_ops[OF f] by simp
    with full have "error_markers (fst (after p env tx))
                      = List.map_filter error_of (map (Pair seg) (planned_calls tx fq))"
      using error_markers_shape[of p env tx "log1 @ log2" seg "planned_calls tx fq"] by simp
    with e show ?thesis by (simp add: planned_calls_errors)
  qed
  from ignorable atmost reportable show ?thesis by blast
qed

theorem after_error_markers_witness:
  "error_markers (fst (after default_plugin steady_collaborators
      (traced_tx\<lparr>Error := Some GormErrRecordNotFound\<rparr>))) = []
   \<and> error_markers (fst (after default_plugin steady_collaborators
      (traced_tx\<lparr>Error := Some (Errorf ''find user'' GormErrRecordNotFound)\<rparr>)))
       = [(8, Errorf ''find user'' GormErrRecordNotFound)]"
  using after_error_markers[of "traced_tx\<lparr>Error := Some GormErrRecordNotFound\<rparr>" 8
          default_plugin steady_collaborators GormErrRecordNotFound]
        after_error_markers[of "traced_tx\<lparr>Error := Some (Errorf ''find user'' GormErrRecordNotFound)\<rparr>" 8
          default_plugin steady_collaborators "Errorf ''find user'' GormErrRecordNotFound"]
  by (simp add: example_defs after_unfold)

subsection \<open>The metadata\<close>

text \<open>
  C8. With a segment attached and a normal return: the attached segment, and no other,
  gets the statement text as formatted under \<open>db.query\<close> and the keyword that \<open>dbOperation\<close>
  derives from it under \<open>db.operation\<close>, each once; it gets the table name under
  \<open>db.table\<close> exactly when the name is not empty, and the affected-row count under
  \<open>db.rows.affected\<close> exactly when the count is not \<open>-1\<close>.
\<close>

theorem after_metadata:
  fixes env :: "('ctx, 'seg, 'var) collaborators"
  assumes att: "InstanceGet tx ''xray_subsegment'' = (SegmentPtr (Some seg), True)"
    and ret: "snd (after p env tx) = Returned"
  shows "\<exists>log1 query log2 formatted.
           after_query p env tx = (log1, Inr query)
           \<and> formatQuery p query = (log2 :: ('ctx, 'seg, 'var) event list, Inr formatted)
           \<and> metadata_received ''db.query'' (fst (after p env tx)) = [(seg, MString formatted)]
           \<and> metadata_received ''db.operation'' (fst (after p env tx)) = [(seg, MString (dbOperation formatted))]
           \<and> metadata_received ''db.table'' (fst (after p env tx))
               = (if Table tx \<noteq> [] then [(seg, MString (Table tx))] else [])
           \<and> metadata_received ''db.rows.affected'' (fst (after p env tx))
               = (if RowsAffected tx \<noteq> - 1 then [(seg, MInt64 (RowsAffected tx))] else [])"
proof -
  from att ret obtain log1 query log2 fq where
    q: "after_query p env tx = (log1, Inr query)"
    and f: "formatQuery p query = (log2, Inr fq)"
    and full: "fst (after p env tx) = log1 @ log2 @ map (SpanCall seg) (planned_calls tx fq @ [Close None])"
    by (rule after_returned)
  note md = metadata_received_returned[OF full after_query_no_span_ops[OF q] formatQuery_no_span_ops[OF f]]
  show ?thesis
    using q f md by blast
qed

theorem after_metadata_witness:
  "metadata_received ''db.query'' (fst (after default_plugin steady_collaborators traced_tx))
     = [(8, MString ''SELECT * FROM users WHERE id = 42'')]
   \<and> metadata_received ''db.operation'' (fst (after default_plugin steady_collaborators traced_tx))
     = [(8, MString ''select'')]
   \<and> metadata_received ''db.table'' (fst (after default_plugin steady_collaborators traced_tx))
     = [(8, MString ''users'')]
   \<and> metadata_received ''db.rows.affected'' (fst (after default_plugin steady_collaborators traced_tx))
     = [(8, MInt64 1)]
   \<and> metadata_received ''db.table''
       (fst (after default_plugin steady_collaborators (traced_tx\<lparr>Table := [], RowsAffected := - 1\<rparr>)))
     = []
   \<and> metadata_received ''db.rows.affected''
       (fst (after default_plugin steady_collaborators (traced_tx\<lparr>Table := [], RowsAffected := - 1\<rparr>)))
     = []"
  using after_metadata[of traced_tx 8 default_plugin steady_collaborators]
        after_metadata[of "traced_tx\<lparr>Table := [], RowsAffected := - 1\<rparr>" 8
          default_plugin steady_collaborators]
  by (simp add: example_defs after_unfold interpolate_example dbOperation_examples)

text \<open>
  C6. With a segment attached and a normal return: the statement text goes through
  \<open>formatQuery\<close>, which is the configured formatter, called once on that text, or the
  identity when none is configured; the value recorded under \<open>db.query\<close> is the formatted
  text, and the value under \<open>db.operation\<close> is \<open>dbOperation\<close> of the formatted text.
\<close>

theorem after_records_formatted:
  fixes env :: "('ctx, 'seg, 'var) collaborators"
  assumes att: "InstanceGet tx ''xray_subsegment'' = (SegmentPtr (Some seg), True)"
    and ret: "snd (after p env tx) = Returned"
  shows "\<exists>log1 query formatted.
           after_query p env tx = (log1, Inr query)
           \<and> (case queryFormatter p of
                 None \<Rightarrow> formatted = query \<and> formatter_calls (fst (after p env tx)) = []
               | Some f \<Rightarrow> f query = Inr formatted
                           \<and> formatter_calls (fst (after p env tx)) = [query])
           \<and> metadata ''db.query'' (fst (after p env tx)) = [MString formatted]
           \<and> metadata ''db.operation'' (fst (after p env tx)) = [MString (dbOperation formatted)]"
proof -
  from att ret obtain log1 query log2 fq where
    q: "after_query p env tx = (log1, Inr query)"
    and f: "formatQuery p query = (log2, Inr fq)"
    and full: "fst (after p env tx) = log1 @ log2 @ map (SpanCall seg) (planned_calls tx fq @ [Close None])"
    by (rule after_returned)
  note md = metadata_returned(1,2)[OF full after_query_no_span_ops[OF q] formatQuery_no_span_ops[OF f]]
  have l1: "formatter_calls log1 = []"
    using q by (auto simp: after_query_def split: if_splits)
  have fmt: "case queryFormatter p of
               None \<Rightarrow> fq = query \<and> formatter_calls (fst (after p env tx)) = []
             | Some g \<Rightarrow> g query = Inr fq \<and> formatter_calls (fst (after p env tx)) = [query]"
    using formatQuery_result[OF f] l1 by (auto simp: full split: option.splits)
  show ?thesis
    using q fmt md by blast
qed

theorem after_records_formatted_witness:
  "metadata ''db.query'' (fst (after redacting_plugin steady_collaborators traced_tx))
     = [MString ''/* redacted */ SELECT'']
   \<and> metadata ''db.operation'' (fst (after redacting_plugin steady_collaborators traced_tx))
     = [MString ''select'']
   \<and> formatter_calls (fst (after redacting_plugin steady_collaborators traced_tx))
     = [''SELECT * FROM users WHERE id = ?'']
   \<and> metadata ''db.query'' (fst (after default_plugin steady_collaborators traced_tx))
     = [MString ''SELECT * FROM users WHERE id = 42'']
   \<and> formatter_calls (fst (after default_plugin steady_collaborators traced_tx)) = []"
  using after_records_formatted[of traced_tx 8 redacting_plugin steady_collaborators]
        after_records_formatted[of traced_tx 8 default_plugin steady_collaborators]
  by (simp add: example_defs after_unfold interpolate_example dbOperation_examples redact_def)

text \<open>
  C5. The statement text of lines 123 to 128: with \<open>excludeQueryVars\<close> it is the
  unexpanded text \<open>SQL\<close> itself, and the hook never calls the host's renderer, whatever
  the bound parameters; without it, it is what the renderer returns for the text and the
  parameters, asked once. With a segment attached and a normal return, the text recorded
  under \<open>db.query\<close> is that text as \<open>formatQuery\<close> returns it: the very text when no
  formatter is configured.
\<close>

theorem after_statement_text:
  fixes env :: "('ctx, 'seg, 'var) collaborators"
  shows "(excludeQueryVars p \<longrightarrow>
            after_query p env tx = ([], Inr (SQL tx)) \<and> explain_calls (fst (after p env tx)) = [])
         \<and> (\<not> excludeQueryVars p \<longrightarrow>
            after_query p env tx = ([ExplainCall (SQL tx) (Vars tx)], Explain env (SQL tx) (Vars tx)))
         \<and> (InstanceGet tx ''xray_subsegment'' = (SegmentPtr (Some seg), True)
              \<and> snd (after p env tx) = Returned \<longrightarrow>
            (\<exists>query. snd (after_query p env tx) = Inr query
               \<and> explain_calls (fst (after p env tx))
                    = (if excludeQueryVars p then [] else [(SQL tx, Vars tx)])
               \<and> (case queryFormatter p of
                     None \<Rightarrow> metadata ''db.query'' (fst (after p env tx)) = [MString query]
                   | Some f \<Rightarrow> \<exists>formatted. f query = Inr formatted
                       \<and> metadata ''db.query'' (fst (after p env tx)) = [MString formatted])))"
proof (intro conjI impI)
  assume "excludeQueryVars p"
  then show "after_query p env tx = ([], Inr (SQL tx))" by (simp add: after_query_def)
next
  assume "excludeQueryVars p"
  then show "explain_calls (fst (after p env tx)) = []" by (rule after_explain_calls)
next
  assume "\<not> excludeQueryVars p"
  then show "after_query p env tx = ([ExplainCall (SQL tx) (Vars tx)], Explain env (SQL tx) (Vars tx))"
    by (simp add: after_query_def)
next
  assume "InstanceGet tx ''xray_subsegment'' = (SegmentPtr (Some seg), True)
          \<and> snd (after p env tx) = Returned"
  then have att: "InstanceGet tx ''xray_subsegment'' = (SegmentPtr (Some seg), True)"
    and ret: "snd (after p env tx) = Returned" by simp_all
  from att ret obtain log1 query log2 fq where
    q: "after_query p env tx = (log1, Inr query)"
    and f: "formatQuery p query = (log2, Inr fq)"
    and full: "fst (after p env tx) = log1 @ log2 @ map (SpanCall seg) (planned_calls tx fq @ [Close None])"
    by (rule after_returned)
  note md = metadata_returned(1)[OF full after_query_no_span_ops[OF q] formatQuery_no_span_ops[OF f]]
  have l2: "explain_calls log2 = []"
    using formatQuery_result[OF f] by (auto split: option.splits)
  have l1: "explain_calls log1 = (if excludeQueryVars p then [] else [(SQL tx, Vars tx)])"
    using q by (auto simp: after_query_def split: if_splits)
  have ec: "explain_calls (fst (after p env tx)) = (if excludeQueryVars p then [] else [(SQL tx, Vars tx)])"
    by (simp add: full l1 l2)
  have fmt: "case queryFormatter p of
               None \<Rightarrow> metadata ''db.query'' (fst (after p env tx)) = [MString query]
             | Some g \<Rightarrow> \<exists>formatted. g query = Inr formatted
                 \<and> metadata ''db.query'' (fst (after p env tx)) = [MString formatted]"
    using formatQuery_result[OF f] md by (auto split: option.splits)
  show "\<exists>query. snd (after_query p env tx) = Inr query
          \<and> explain_calls (fst (after p env tx))
               = (if excludeQueryVars p then [] else [(SQL tx, Vars tx)])
          \<and> (case queryFormatter p of
                None \<Rightarrow> metadata ''db.query'' (fst (after p env tx)) = [MString query]
              | Some f \<Rightarrow> \<exists>formatted. f query = Inr formatted
                  \<and> metadata ''db.query'' (fst (after p env tx)) = [MString formatted])"
    using q ec fmt by (intro exI[of _ query]) simp
qed

theorem after_statement_text_witness:
  "metadata ''db.query''
     (fst (after (NewPlugin [WithExcludeQueryVars True]) steady_collaborators traced_tx))
     = [MString ''SELECT * FROM users WHERE id = ?'']
   \<and> explain_calls
     (fst (after (NewPlugin [WithExcludeQueryVars True]) steady_collaborators traced_tx)) = []
   \<and> metadata ''db.query''
     (fst (after (NewPlugin [WithExcludeQueryVars False]) steady_collaborators traced_tx))
     = [MString ''SELECT * FROM users WHERE id = 42'']
   \<and> explain_calls
     (fst (after (NewPlugin [WithExcludeQueryVars False]) steady_collaborators traced_tx))
     = [(''SELECT * FROM users WHERE id = ?'', [''42''])]"
  using after_statement_text[of "NewPlugin [WithExcludeQueryVars True]" steady_collaborators traced_tx 8]
        after_statement_text[of "NewPlugin [WithExcludeQueryVars False]" steady_collaborators traced_tx 8]
  by (simp add: example_defs after_unfold interpolate_example)

section \<open>The before hook\<close>

text \<open>
  C4. The before hook begins the segment \<open>FallbackParent\<close> exactly when the context has
  no segment, using the context it returns and nothing else of its result; it then
  begins a subsegment with the given name in the resulting context, stores the context
  that this returns in the Operation Instance and the subsegment under the key
  \<open>xray_subsegment\<close> of its side-channel. It changes no other field, the error of the
  instance in particular, and it returns normally.
\<close>

theorem before_opens_span:
  fixes env :: "('ctx, 'seg, 'var) collaborators"
  shows "before p env spanName tx =
           (let absent = (GetSegment env (Context tx) = None);
                ctx0 = (if absent then fst (BeginSegment env (Context tx) ''FallbackParent'')
                        else Context tx);
                opened = BeginSubsegment env ctx0 spanName
            in (tx\<lparr>Context := fst opened,
                    Settings := (Settings tx)(''xray_subsegment'' \<mapsto> SegmentPtr (snd opened))\<rparr>,
                (if absent then [BeginSegmentCall (Context tx) ''FallbackParent''] else [])
                @ [BeginSubsegmentCall ctx0 spanName]))
         \<and> InstanceGet (fst (before p env spanName tx)) ''xray_subsegment''
             = (SegmentPtr (snd (BeginSubsegment env
                  (if GetSegment env (Context tx) = None
                   then fst (BeginSegment env (Context tx) ''FallbackParent'')
                   else Context tx) spanName)), True)
         \<and> Error (fst (before p env spanName tx)) = Error tx
         \<and> snd (snd (run_hook p env (before_hook spanName) tx)) = Returned"
  by (simp add: before_def Let_def InstanceSet_def InstanceGet_def run_hook_def split: prod.splits)

theorem before_opens_span_witness:
  "before default_plugin steady_collaborators ''gorm.Query'' untraced_tx
     = (untraced_tx\<lparr>Context := 101, Settings := [''xray_subsegment'' \<mapsto> SegmentPtr (Some 101)]\<rparr>,
        [BeginSegmentCall 0 ''FallbackParent'', BeginSubsegmentCall 100 ''gorm.Query''])
   \<and> snd (before default_plugin steady_collaborators ''gorm.Query'' (untraced_tx\<lparr>Context := 8\<rparr>))
     = [BeginSubsegmentCall 8 ''gorm.Query'']
   \<and> InstanceGet (fst (before default_plugin steady_collaborators ''gorm.Query'' untraced_tx))
        ''xray_subsegment'' = (SegmentPtr (Some 101), True)"
  using before_opens_span[of default_plugin steady_collaborators "''gorm.Query''" untraced_tx]
        before_opens_span[of default_plugin steady_collaborators "''gorm.Query''" "untraced_tx\<lparr>Context := 8\<rparr>"]
  by (simp add: example_defs Let_def)

section \<open>The configuration\<close>

text \<open>
  C9. Two plugins that agree on \<open>excludeQueryVars\<close> and on \<open>queryFormatter\<close>, whatever
  their \<open>excludeMetrics\<close>, behave the same in the before hook and in the after hook, on
  every input and with every collaborator. Neither of the two options of options.go
  changes \<open>ExcludeMetrics\<close>, so a plugin built from them has it false.
\<close>

theorem excludeMetrics_never_read:
  fixes env :: "('ctx, 'seg, 'var) collaborators"
  shows "(excludeQueryVars p = excludeQueryVars q \<and> queryFormatter p = queryFormatter q \<longrightarrow>
            before p env spanName tx = before q env spanName tx
            \<and> after p env tx = after q env tx
            \<and> run_hook p env h tx = run_hook q env h tx)
         \<and> ExcludeMetrics (WithExcludeQueryVars exclude pc) = ExcludeMetrics pc
         \<and> ExcludeMetrics (WithQueryFormatter formatter pc) = ExcludeMetrics pc
         \<and> (list_all (\<lambda>opt. opt \<in> range WithExcludeQueryVars \<union> range WithQueryFormatter) opts \<longrightarrow>
              excludeMetrics (NewPlugin opts) = False)"
proof (intro conjI impI)
  assume eq: "excludeQueryVars p = excludeQueryVars q \<and> queryFormatter p = queryFormatter q"
  show b: "before p env spanName tx = before q env spanName tx"
    by (simp add: before_def)
  have aq: "after_query p env tx = after_query q env tx"
    using eq by (simp add: after_query_def)
  have fq: "(formatQuery p :: string \<Rightarrow> ('ctx, 'seg, 'var) event list \<times> (fault + string)) = formatQuery q"
    using eq by (simp add: formatQuery_def fun_eq_iff)
  have ab: "after_body p env tx = after_body q env tx"
    unfolding after_body_def aq fq ..
  show a: "after p env tx = after q env tx"
    unfolding after_def ab ..
  have "before p env n tx = before q env n tx" for n
    by (simp add: before_def)
  with a show "run_hook p env h tx = run_hook q env h tx"
    by (simp add: run_hook_def split: gormHookFunc.splits)
next
  show "ExcludeMetrics (WithExcludeQueryVars exclude pc) = ExcludeMetrics pc"
    by (simp add: WithExcludeQueryVars_def)
  show "ExcludeMetrics (WithQueryFormatter formatter pc) = ExcludeMetrics pc"
    by (simp add: WithQueryFormatter_def)
next
  assume provided: "list_all (\<lambda>opt. opt \<in> range WithExcludeQueryVars \<union> range WithQueryFormatter) opts"
  have "ExcludeMetrics (fold (\<lambda>opt cfg. opt cfg) opts cfg) = ExcludeMetrics cfg" for cfg
    using provided
  proof (induction opts arbitrary: cfg)
    case Nil
    show ?case by simp
  next
    case (Cons opt opts)
    from Cons.prems have "opt \<in> range WithExcludeQueryVars \<union> range WithQueryFormatter"
      and rest: "list_all (\<lambda>opt. opt \<in> range WithExcludeQueryVars \<union> range WithQueryFormatter) opts"
      by simp_all
    then have "ExcludeMetrics (opt cfg) = ExcludeMetrics cfg"
      by (auto simp: WithExcludeQueryVars_def WithQueryFormatter_def)
    with Cons.IH[OF rest, of "opt cfg"] show ?case by simp
  qed
  then show "excludeMetrics (NewPlugin opts) = False"
    by (simp add: NewPlugin_def Let_def)
qed

theorem excludeMetrics_never_read_witness:
  "after (default_plugin\<lparr>excludeMetrics := True\<rparr>) steady_collaborators traced_tx
     = after default_plugin steady_collaborators traced_tx
   \<and> before (default_plugin\<lparr>excludeMetrics := True\<rparr>) steady_collaborators ''gorm.Row'' untraced_tx
     = before default_plugin steady_collaborators ''gorm.Row'' untraced_tx
   \<and> excludeMetrics (NewPlugin [WithExcludeQueryVars True, WithQueryFormatter (Some redact)]) = False"
  using excludeMetrics_never_read[where p = "default_plugin\<lparr>excludeMetrics := True\<rparr>"
          and q = default_plugin and env = steady_collaborators and tx = traced_tx
          and opts = "[WithExcludeQueryVars True, WithQueryFormatter (Some redact)]"]
        excludeMetrics_never_read[where p = "default_plugin\<lparr>excludeMetrics := True\<rparr>"
          and q = default_plugin and env = steady_collaborators and tx = untraced_tx
          and spanName = "''gorm.Row''" and opts = "[]"]
  by simp

section \<open>Initialize\<close>

lemma first_failure_append:
  "first_failure (xs @ ys) = (case first_failure xs of Some f \<Rightarrow> Some f | None \<Rightarrow> first_failure ys)"
  by (induction xs rule: first_failure.induct) (auto split: option.splits)

lemma register_all_length: "length (fst (register_all register h cs)) = length cs"
proof (induction cs arbitrary: h)
  case Nil
  show ?case by simp
next
  case (Cons c cs)
  obtain cb name hook where c: "c = (cb, name, hook)" by (cases c)
  obtain r h' where r: "register h cb name hook = (r, h')" by (cases "register h cb name hook")
  obtain rs h'' where rs: "register_all register h' cs = (rs, h'')"
    by (cases "register_all register h' cs")
  from Cons.IH[of h'] show ?case
    by (simp add: c r rs)
qed

lemma Initialize_loop_run:
  fixes register :: "'h gormRegister"
  defines "calls hs \<equiv> map (\<lambda>(cb, hook, name). (cb, ''xray:'' @ name, hook)) hs"
  shows "registered (Initialize_loop register hs st)
           = registered st @ zip (calls hs) (fst (register_all register (host st) (calls hs)))
         \<and> host (Initialize_loop register hs st) = snd (register_all register (host st) (calls hs))
         \<and> firstErr (Initialize_loop register hs st)
           = (case firstErr st of
                Some e \<Rightarrow> Some e
              | None \<Rightarrow> surfaced (first_failure
                          (zip (calls hs) (fst (register_all register (host st) (calls hs))))))"
proof (induction hs arbitrary: st)
  case Nil
  show ?case by (cases "firstErr st") (simp_all add: calls_def surfaced_def)
next
  case (Cons h hs)
  obtain cb hook name where h: "h = (cb, hook, name)" by (cases h)
  obtain r host' where reg: "register (host st) cb (''xray:'' @ name) hook = (r, host')"
    by (cases "register (host st) cb (''xray:'' @ name) hook")
  obtain rs host'' where rest: "register_all register host' (calls hs) = (rs, host'')"
    by (cases "register_all register host' (calls hs)")
  let ?st1 = "st\<lparr>host := host', registered := registered st @ [((cb, ''xray:'' @ name, hook), r)]\<rparr>"
  have calls_Cons: "calls (h # hs) = (cb, ''xray:'' @ name, hook) # calls hs"
    by (simp add: calls_def h)
  show ?case
  proof (cases r)
    case None
    have step: "Initialize_loop register (h # hs) st = Initialize_loop register hs ?st1"
      using reg by (simp add: h None)
    show ?thesis
      using Cons.IH[of ?st1] reg rest
      by (simp add: step calls_Cons None cong: option.case_cong)
  next
    case (Some e)
    show ?thesis
    proof (cases "firstErr st")
      case None
      let ?st2 = "?st1\<lparr>firstErr := Some (Errorf (''callback register '' @ name @ '' failed'') e),
                       logged := logged st @ [(name, e)]\<rparr>"
      have step: "Initialize_loop register (h # hs) st = Initialize_loop register hs ?st2"
        using reg by (simp add: h Some None)
      show ?thesis
        using Cons.IH[of ?st2] reg rest
        by (simp add: step calls_Cons Some None surfaced_def cong: option.case_cong)
    next
      case first: (Some e0)
      have step: "Initialize_loop register (h # hs) st = Initialize_loop register hs ?st1"
        using reg by (simp add: h Some first)
      show ?thesis
        using Cons.IH[of ?st1] reg rest
        by (simp add: step calls_Cons Some first cong: option.case_cong)
    qed
  qed
qed

lemma first_failure_None: "(first_failure rs = None) = list_all (\<lambda>r. snd r = None) rs"
  by (induction rs rule: first_failure.induct) (auto split: option.splits)

text \<open>
  C7. Initialize calls \<open>Register\<close> for all twelve entries of its
  table, in order, each on the host as the previous call left it, whether or not earlier
  calls failed. The twelve are, for each of create, query, delete, update, row and raw,
  the before hook with that kind's span name at the point before the kind's own
  callback, and the after hook at the point after it, under twelve different names
  \<open>xray:before:...\<close> and \<open>xray:after:...\<close>. Initialize returns nil exactly when every call
  returned nil; otherwise it returns not the first failure itself but the error that
  \<open>fmt.Errorf\<close> builds around it with the verb \<open>%w\<close>: its text names the hook, and it
  unwraps to the first failure.
\<close>

theorem Initialize_registers_all:
  fixes register :: "'h gormRegister"
  shows "registered (Initialize p register db)
             = zip (registrations p) (fst (register_all register db (registrations p)))
         \<and> map fst (registered (Initialize p register db)) = registrations p
         \<and> registrations p =
             [(Before Create ''gorm:create'', ''xray:before:create'', before_hook ''gorm.Create''),
              (After Create ''gorm:create'', ''xray:after:create'', after_hook),
              (Before Query ''gorm:query'', ''xray:before:select'', before_hook ''gorm.Query''),
              (After Query ''gorm:query'', ''xray:after:select'', after_hook),
              (Before Delete ''gorm:delete'', ''xray:before:delete'', before_hook ''gorm.Delete''),
              (After Delete ''gorm:delete'', ''xray:after:delete'', after_hook),
              (Before Update ''gorm:update'', ''xray:before:update'', before_hook ''gorm.Update''),
              (After Update ''gorm:update'', ''xray:after:update'', after_hook),
              (Before Row ''gorm:row'', ''xray:before:row'', before_hook ''gorm.Row''),
              (After Row ''gorm:row'', ''xray:after:row'', after_hook),
              (Before Raw ''gorm:raw'', ''xray:before:raw'', before_hook ''gorm.Raw''),
              (After Raw ''gorm:raw'', ''xray:after:raw'', after_hook)]
         \<and> map (fst \<circ> snd) (registrations p) =
             [''xray:before:create'', ''xray:after:create'', ''xray:before:select'',
              ''xray:after:select'', ''xray:before:delete'', ''xray:after:delete'',
              ''xray:before:update'', ''xray:after:update'', ''xray:before:row'',
              ''xray:after:row'', ''xray:before:raw'', ''xray:after:raw'']
         \<and> distinct (map (fst \<circ> snd) (registrations p))
         \<and> map snd (registered (Initialize p register db))
             = fst (register_all register db (registrations p))
         \<and> host (Initialize p register db) = snd (register_all register db (registrations p))
         \<and> firstErr (Initialize p register db)
             = surfaced (first_failure (registered (Initialize p register db)))
         \<and> (case firstErr (Initialize p register db) of None \<Rightarrow> None | Some e \<Rightarrow> Unwrap e)
             = map_option snd (first_failure (registered (Initialize p register db)))
         \<and> (firstErr (Initialize p register db) = None)
             = list_all (\<lambda>r. snd r = None) (registered (Initialize p register db))"
proof -
  let ?st0 = "\<lparr>firstErr = None, host = db, registered = [], logged = []\<rparr> :: 'h init_state"
  let ?rs = "fst (register_all register db (registrations p))"
  from Initialize_loop_run[of register "hooks p" ?st0]
  have reg: "registered (Initialize p register db) = zip (registrations p) ?rs"
    and hst: "host (Initialize p register db) = snd (register_all register db (registrations p))"
    and fe: "firstErr (Initialize p register db)
               = surfaced (first_failure (zip (registrations p) ?rs))"
    by (simp_all add: Initialize_def registrations_def)
  have len: "length ?rs = length (registrations p)"
    by (rule register_all_length)
  have names: "map (fst \<circ> snd) (registrations p) =
             [''xray:before:create'', ''xray:after:create'', ''xray:before:select'',
              ''xray:after:select'', ''xray:before:delete'', ''xray:after:delete'',
              ''xray:before:update'', ''xray:after:update'', ''xray:before:row'',
              ''xray:after:row'', ''xray:before:raw'', ''xray:after:raw'']"
    by (simp add: registrations_def hooks_def)
  have dist: "distinct (map (fst \<circ> snd) (registrations p))"
    unfolding names by simp
  have table: "registrations p =
             [(Before Create ''gorm:create'', ''xray:before:create'', before_hook ''gorm.Create''),
              (After Create ''gorm:create'', ''xray:after:create'', after_hook),
              (Before Query ''gorm:query'', ''xray:before:select'', before_hook ''gorm.Query''),
              (After Query ''gorm:query'', ''xray:after:select'', after_hook),
              (Before Delete ''gorm:delete'', ''xray:before:delete'', before_hook ''gorm.Delete''),
              (After Delete ''gorm:delete'', ''xray:after:delete'', after_hook),
              (Before Update ''gorm:update'', ''xray:before:update'', before_hook ''gorm.Update''),
              (After Update ''gorm:update'', ''xray:after:update'', after_hook),
              (Before Row ''gorm:row'', ''xray:before:row'', before_hook ''gorm.Row''),
              (After Row ''gorm:row'', ''xray:after:row'', after_hook),
              (Before Raw ''gorm:raw'', ''xray:before:raw'', before_hook ''gorm.Raw''),
              (After Raw ''gorm:raw'', ''xray:after:raw'', after_hook)]"
    by (simp add: registrations_def hooks_def)
  have none: "(firstErr (Initialize p register db) = None)
               = list_all (\<lambda>r. snd r = None) (registered (Initialize p register db))"
    by (simp add: fe reg first_failure_None[symmetric] surfaced_def split: option.splits)
  have unwrap: "(case firstErr (Initialize p register db) of None \<Rightarrow> None | Some e \<Rightarrow> Unwrap e)
                  = map_option snd (first_failure (registered (Initialize p register db)))"
    by (simp add: fe reg surfaced_def split: option.splits)
  have attempted: "map fst (registered (Initialize p register db)) = registrations p"
    by (simp add: reg len)
  have results: "map snd (registered (Initialize p register db))
                   = fst (register_all register db (registrations p))"
    by (simp add: reg len)
  have returned: "firstErr (Initialize p register db)
                    = surfaced (first_failure (registered (Initialize p register db)))"
    by (simp add: fe reg)
  show ?thesis
    by (intro conjI) (rule reg attempted table names dist results hst returned unwrap none)+
qed

theorem Initialize_registers_all_witness:
  "firstErr (Initialize default_plugin flaky_register [])
     = Some (Errorf ''callback register after:select failed''
               (OtherError ''no such callback for xray:after:select''))
   \<and> host (Initialize default_plugin flaky_register [])
     = [''xray:before:create'', ''xray:after:create'', ''xray:before:select'',
        ''xray:before:delete'', ''xray:after:delete'', ''xray:before:update'',
        ''xray:after:update'', ''xray:after:row'', ''xray:before:raw'', ''xray:after:raw'']
   \<and> length (registered (Initialize default_plugin flaky_register [])) = 12
   \<and> firstErr (Initialize default_plugin steady_register []) = None"
  using Initialize_registers_all[of default_plugin flaky_register "[]"]
        Initialize_registers_all[of default_plugin steady_register "[]"]
  by (simp add: registrations_def hooks_def flaky_register_def steady_register_def surfaced_def)

text \<open>
  C7. The first failure encountered is not itself the value Initialize returns: on a
  host that refuses \<open>xray:after:select\<close>, the first failure is the host's error, and
  Initialize returns another value, the wrapper of line 88.
\<close>

theorem Initialize_returns_wrapper_counterexample:
  "first_failure (registered (Initialize default_plugin flaky_register []))
     = Some (''xray:after:select'', OtherError ''no such callback for xray:after:select'')
   \<and> firstErr (Initialize default_plugin flaky_register [])
     \<noteq> Some (OtherError ''no such callback for xray:after:select'')"
  by (simp add: Initialize_def hooks_def flaky_register_def)

end
